theory Spec2Isabelle
  imports Main "HOL-Library.AList"
begin

section \<open>Data model of typed-client-router (src/index.ts)\<close>

text \<open>
  A JavaScript object of type \<open>Record<string, string>\<close> is an association list with
  distinct keys, in property order: writing a property is \<open>AList.update\<close> (an existing
  key keeps its place, a new key goes last), \<open>delete\<close> is \<open>AList.delete\<close> and a read is
  \<open>map_of\<close>. The argument of \<open>url\<close>, \<open>push\<close> and \<open>replace\<close> may hold keys whose value
  is \<open>undefined\<close>: there the value is \<open>None\<close>.
\<close>

type_synonym jsobj = "(string \<times> string) list"

type_synonym jsargs = "(string \<times> string option) list"

text \<open>
  What the code throws: its own \<open>Error("Can not find route for " + name)\<close>, and
  whatever the path-parser collaborator throws from \<open>new Path\<close> or \<open>build\<close>.
\<close>

datatype error = Error string | PathError string

subsection \<open>The collaborators, as parameters\<close>

text \<open>
  The three libraries that index.ts imports are not part of the repository. A compiled
  \<open>Path\<close> of path-parser is the record of the three members the code uses:
  \<open>test\<close> returns the captured parameters or \<open>null\<close>, \<open>build\<close> returns the path or
  throws, \<open>params\<close> lists the placeholder names. \<open>new Path\<close> and the two functions of
  query-string are the fields of \<open>libs\<close>; every function of the router takes them as
  its first argument where it calls them.
\<close>

record path =
  test :: "string \<Rightarrow> jsobj option"
  build :: "jsobj \<Rightarrow> error + string"
  params :: "string list"

record libs =
  newPath :: "string \<Rightarrow> error + path"
  parse :: "string \<Rightarrow> jsobj"
  stringify :: "jsobj \<Rightarrow> string"

subsection \<open>The history collaborator\<close>

text \<open>
  \<open>history.location\<close> with the three members the code reads or writes. The state of a
  location is \<open>null\<close> (\<open>None\<close>) or an object, of which the code reads the one member
  \<open>isQueryUpdate\<close>.
\<close>

datatype Action = Pop | Push | Replace

record hstate =
  isQueryUpdate :: bool

record location =
  pathname :: string
  search :: string
  state :: "hstate option"

record Update =
  action :: Action
  location :: location

subsection \<open>The router\<close>

text \<open>
  An element of the \<open>routes\<close> array. The object literal pushed in the loop of
  \<open>createRouter\<close> is one heap object; \<open>rid\<close> is its identity. Its members \<open>params\<close>,
  \<open>queries\<close> and \<open>pathname\<close> are getters, computed from \<open>history.location\<close> at each
  read: they are the functions \<open>route_params\<close>, \<open>route_queries\<close>, \<open>route_pathname\<close> below.
\<close>

record route =
  rid :: nat
  name :: string
  rpath :: path

text \<open>
  The object \<open>{ ...activeRoute }\<close> that \<open>notify\<close> hands to a listener: a new object
  (\<open>sid\<close> is its identity) holding the route's members, the getters evaluated when the
  copy is made.
\<close>

record snapshot =
  sid :: nat
  sname :: string
  spath :: path
  sparams :: jsobj
  squeries :: jsobj
  spathname :: string

text \<open>
  The closure of \<open>createRouter\<close>: the normalised \<open>base\<close> (\<open>None\<close> is \<open>undefined\<close>), the
  \<open>routes\<close> array, \<open>history.location\<close>, the \<open>listeners\<close> set in insertion order (a
  listener is an opaque callback, named by a number), the \<open>calls\<close> made to listeners
  so far, oldest first, and the next unused object identity.
\<close>

record router =
  base :: "string option"
  routes :: "route list"
  hlocation :: location
  listeners :: "nat list"
  calls :: "(nat \<times> snapshot option) list"
  fresh :: nat

section \<open>createRouter\<close>

text \<open>
  \<open>if (base === "/") base = ""; else if (base && base[0] !== "/") base = "/" + base;\<close>
\<close>

definition normalize_base :: "string option \<Rightarrow> string option" where
  "normalize_base b =
     (case b of
        None \<Rightarrow> None
      | Some s \<Rightarrow>
          if s = ''/'' then Some ''''
          else if s \<noteq> '''' \<and> hd s \<noteq> CHR ''/'' then Some (''/'' @ s)
          else Some s)"

text \<open>\<open>config[route].split('?')[0]\<close>: the template up to its first question mark.\<close>

definition routePath :: "string \<Rightarrow> string" where
  "routePath template = takeWhile (\<lambda>c. c \<noteq> CHR ''?'') template"

text \<open>\<open>base ? base + routePath : routePath\<close>, with the base already normalised.\<close>

definition with_base :: "string option \<Rightarrow> string \<Rightarrow> string" where
  "with_base b p = (case b of None \<Rightarrow> p | Some s \<Rightarrow> if s \<noteq> '''' then s @ p else p)"

text \<open>
  The configuration object is the list of its entries as declared, one entry for
  each name. \<open>for (const route in config)\<close> does not follow that order: it enumerates
  first the names that are array indices (a canonical decimal numeral below
  \<open>2^32 - 1\<close>, such as \<open>0\<close>, \<open>2\<close> or \<open>404\<close>, but not \<open>02\<close>), in ascending numeric order,
  and then all other names in the order of their declaration.
\<close>

definition index_value :: "string \<Rightarrow> nat" where
  "index_value s = foldl (\<lambda>n c. 10 * n + (of_char c - 48)) 0 s"

definition is_array_index :: "string \<Rightarrow> bool" where
  "is_array_index s =
     (s \<noteq> [] \<and>
      list_all (\<lambda>c. 48 \<le> (of_char c :: nat) \<and> (of_char c :: nat) \<le> 57) s \<and>
      (s = ''0'' \<or> hd s \<noteq> CHR ''0'') \<and>
      index_value s < 4294967295)"

definition for_in :: "(string \<times> 'a) list \<Rightarrow> (string \<times> 'a) list" where
  "for_in obj =
     sort_key (\<lambda>e. index_value (fst e)) (filter (\<lambda>e. is_array_index (fst e)) obj) @
     filter (\<lambda>e. \<not> is_array_index (fst e)) obj"

text \<open>
  The body of the loop, run over the entries that \<open>for ... in\<close> enumerates, in that
  order; \<open>i\<close> is the identity of the next route object. A template that \<open>new Path\<close>
  rejects ends the construction.
\<close>

fun compile_routes :: "libs \<Rightarrow> string option \<Rightarrow> nat \<Rightarrow> (string \<times> string) list \<Rightarrow> error + route list" where
  "compile_routes L b i [] = Inr []"
| "compile_routes L b i ((n, template) # cfg) =
     (case newPath L (with_base b (routePath template)) of
        Inl e \<Rightarrow> Inl e
      | Inr p \<Rightarrow>
          (case compile_routes L b (Suc i) cfg of
             Inl e \<Rightarrow> Inl e
           | Inr rs \<Rightarrow> Inr (\<lparr>rid = i, name = n, rpath = p\<rparr> # rs)))"

text \<open>
  \<open>createRouter(config, { base })\<close>; \<open>config\<close> lists the entries as declared and
  \<open>loc0\<close> is the location that \<open>createBrowserHistory()\<close> starts from.
\<close>

definition createRouter :: "libs \<Rightarrow> (string \<times> string) list \<Rightarrow> string option \<Rightarrow> location \<Rightarrow> error + router" where
  "createRouter L config b loc0 =
     (let nb = normalize_base b in
      case compile_routes L nb 0 (for_in config) of
        Inl e \<Rightarrow> Inl e
      | Inr rs \<Rightarrow>
          Inr \<lparr>base = nb, routes = rs, hlocation = loc0, listeners = [], calls = [],
               fresh = length rs\<rparr>)"

section \<open>Route lookup and resolution\<close>

text \<open>\<open>routes.find((route) => route.name === name)\<close>, or the throw.\<close>

definition getRoute :: "router \<Rightarrow> string \<Rightarrow> error + route" where
  "getRoute r n =
     (case find (\<lambda>rt. name rt = n) (routes r) of
        None \<Rightarrow> Inl (Error (''Can not find route for '' @ n))
      | Some rt \<Rightarrow> Inr rt)"

text \<open>
  \<open>routes.find((route) => route.path.test(history.location.pathname))\<close>: the result of
  \<open>test\<close> is an object, which is truthy, or \<open>null\<close>.
\<close>

definition getActiveRoute :: "router \<Rightarrow> route option" where
  "getActiveRoute r =
     find (\<lambda>rt. test (rpath rt) (pathname (hlocation r)) \<noteq> None) (routes r)"

text \<open>The getters of a route object, read in the router state \<open>r\<close>.\<close>

definition route_params :: "router \<Rightarrow> route \<Rightarrow> jsobj" where
  "route_params r rt =
     (case test (rpath rt) (pathname (hlocation r)) of None \<Rightarrow> [] | Some ps \<Rightarrow> ps)"

definition route_queries :: "libs \<Rightarrow> router \<Rightarrow> jsobj" where
  "route_queries L r = parse L (search (hlocation r))"

text \<open>\<open>history.location.pathname.substring(base?.length ?? 0)\<close>\<close>

definition route_pathname :: "router \<Rightarrow> string" where
  "route_pathname r =
     drop (case base r of None \<Rightarrow> 0 | Some s \<Rightarrow> length s) (pathname (hlocation r))"

text \<open>The properties \<open>current\<close>, \<open>queries\<close> and \<open>pathname\<close> of the returned router.\<close>

definition current :: "router \<Rightarrow> route option" where
  "current r = getActiveRoute r"


definition pathname_prop :: "router \<Rightarrow> string" where
  "pathname_prop r =
     drop (case base r of None \<Rightarrow> 0 | Some s \<Rightarrow> length s) (pathname (hlocation r))"

section \<open>Splitting the caller's values\<close>

text \<open>
  \<open>splitParams\<close>: the \<open>forEach\<close> over the entries of the argument, with the two
  buckets as the accumulator. \<open>pathParamNames.has(key)\<close> is membership in the
  \<open>params\<close> of the route's path.
\<close>

fun splitParams_loop :: "path \<Rightarrow> jsargs \<Rightarrow> jsobj \<times> jsobj \<Rightarrow> jsobj \<times> jsobj" where
  "splitParams_loop p [] acc = acc"
| "splitParams_loop p ((k, v) # es) (pathParams, queryParams) =
     (case v of
        None \<Rightarrow> splitParams_loop p es (pathParams, queryParams)
      | Some s \<Rightarrow>
          if k \<in> set (params p)
          then splitParams_loop p es (AList.update k s pathParams, queryParams)
          else splitParams_loop p es (pathParams, AList.update k s queryParams))"

text \<open>\<open>Object.entries(params || {})\<close>; \<open>None\<close> is the argument left out.\<close>

definition entries_of :: "jsargs option \<Rightarrow> jsargs" where
  "entries_of args = (case args of None \<Rightarrow> [] | Some a \<Rightarrow> a)"

definition splitParams :: "route \<Rightarrow> jsargs option \<Rightarrow> jsobj \<times> jsobj" where
  "splitParams rt args = splitParams_loop (rpath rt) (entries_of args) ([], [])"

section \<open>Notification\<close>

text \<open>\<open>{ ...activeRoute }\<close>, allocated at identity \<open>i\<close>.\<close>

definition copy_route :: "libs \<Rightarrow> router \<Rightarrow> route \<Rightarrow> nat \<Rightarrow> snapshot" where
  "copy_route L r rt i =
     \<lparr>sid = i, sname = name rt, spath = rpath rt, sparams = route_params r rt,
      squeries = route_queries L r, spathname = route_pathname r\<rparr>"

text \<open>
  \<open>listeners.forEach((listener) => listener(activeRoute ? { ...activeRoute } : undefined))\<close>:
  the copy is made inside the arrow function, once for each listener.
\<close>

fun call_listeners :: "libs \<Rightarrow> route option \<Rightarrow> nat list \<Rightarrow> router \<Rightarrow> router" where
  "call_listeners L a [] r = r"
| "call_listeners L a (l # ls) r =
     call_listeners L a ls
       (case a of
          None \<Rightarrow> r\<lparr>calls := calls r @ [(l, None)]\<rparr>
        | Some rt \<Rightarrow>
            r\<lparr>calls := calls r @ [(l, Some (copy_route L r rt (fresh r)))],
              fresh := Suc (fresh r)\<rparr>)"

text \<open>\<open>update.location.state?.isQueryUpdate\<close>\<close>

definition is_query_update :: "location \<Rightarrow> bool" where
  "is_query_update loc = (case state loc of None \<Rightarrow> False | Some s \<Rightarrow> isQueryUpdate s)"

definition notify :: "libs \<Rightarrow> Update \<Rightarrow> router \<Rightarrow> router" where
  "notify L update r =
     (if action update = Replace \<and> is_query_update (location update) then r
      else call_listeners L (getActiveRoute r) (listeners r) r)"

text \<open>
  Modelled from the spec: the Location Store (the history package, not under src/).
  \<open>history.push\<close> and \<open>history.replace\<close> store the new location and then call, before
  they return, the one handler that \<open>history.listen(notify)\<close> installed. \<open>push\<close> is
  called without a state, so the new location's state is \<open>null\<close>.
\<close>

definition history_push :: "libs \<Rightarrow> string \<Rightarrow> string \<Rightarrow> router \<Rightarrow> router" where
  "history_push L p s r =
     (let loc = \<lparr>pathname = p, search = s, state = None\<rparr>
      in notify L \<lparr>action = Push, location = loc\<rparr> (r\<lparr>hlocation := loc\<rparr>))"

definition history_replace :: "libs \<Rightarrow> string \<Rightarrow> string \<Rightarrow> hstate option \<Rightarrow> router \<Rightarrow> router" where
  "history_replace L p s st r =
     (let loc = \<lparr>pathname = p, search = s, state = st\<rparr>
      in notify L \<lparr>action = Replace, location = loc\<rparr> (r\<lparr>hlocation := loc\<rparr>))"

section \<open>The operations of the returned router\<close>

definition url :: "libs \<Rightarrow> router \<Rightarrow> string \<Rightarrow> jsargs option \<Rightarrow> error + string" where
  "url L r n args =
     (case getRoute r n of
        Inl e \<Rightarrow> Inl e
      | Inr rt \<Rightarrow>
          (case splitParams rt args of
             (pathParams, queryParams) \<Rightarrow>
               (case build (rpath rt) pathParams of
                  Inl e \<Rightarrow> Inl e
                | Inr p \<Rightarrow>
                    (let s = stringify L queryParams
                     in Inr (if s \<noteq> '''' then p @ ''?'' @ s else p)))))"

text \<open>
  \<open>push\<close> and \<open>replace\<close> return nothing or throw; the router state after the call is
  the second component, also when the call throws.
\<close>

definition push :: "libs \<Rightarrow> string \<Rightarrow> jsargs option \<Rightarrow> router \<Rightarrow> (error + unit) \<times> router" where
  "push L n args r =
     (case getRoute r n of
        Inl e \<Rightarrow> (Inl e, r)
      | Inr rt \<Rightarrow>
          (case splitParams rt args of
             (pathParams, queryParams) \<Rightarrow>
               (case build (rpath rt) pathParams of
                  Inl e \<Rightarrow> (Inl e, r)
                | Inr p \<Rightarrow> (Inr (), history_push L p (stringify L queryParams) r))))"

definition replace :: "libs \<Rightarrow> string \<Rightarrow> jsargs option \<Rightarrow> router \<Rightarrow> (error + unit) \<times> router" where
  "replace L n args r =
     (case getRoute r n of
        Inl e \<Rightarrow> (Inl e, r)
      | Inr rt \<Rightarrow>
          (case splitParams rt args of
             (pathParams, queryParams) \<Rightarrow>
               (case build (rpath rt) pathParams of
                  Inl e \<Rightarrow> (Inl e, r)
                | Inr p \<Rightarrow> (Inr (), history_replace L p (stringify L queryParams) None r))))"

text \<open>
  \<open>setQuery(key, value)\<close>: \<open>delete existingQuery[key]\<close> when the value is \<open>undefined\<close>,
  \<open>{ ...existingQuery, [key]: value }\<close> otherwise.
\<close>

definition setQuery :: "libs \<Rightarrow> string \<Rightarrow> string option \<Rightarrow> router \<Rightarrow> router" where
  "setQuery L key v r =
     (let existingQuery = parse L (search (hlocation r));
          existingQuery' =
            (case v of
               None \<Rightarrow> AList.delete key existingQuery
             | Some s \<Rightarrow> AList.update key s existingQuery)
      in history_replace L (pathname (hlocation r)) (''?'' @ stringify L existingQuery')
           (Some \<lparr>isQueryUpdate = True\<rparr>) r)"

text \<open>
  \<open>listen(listener)\<close> adds to the set (\<open>Set.add\<close> keeps a member in its place); the
  function it returns is \<open>unlisten\<close>.
\<close>

definition listen :: "nat \<Rightarrow> router \<Rightarrow> router" where
  "listen l r =
     r\<lparr>listeners := (if l \<in> set (listeners r) then listeners r else listeners r @ [l])\<rparr>"

definition unlisten :: "nat \<Rightarrow> router \<Rightarrow> router" where
  "unlisten l r = r\<lparr>listeners := removeAll l (listeners r)\<rparr>"

section \<open>A reference instance of the collaborators\<close>

text \<open>
  Modelled from the spec: the Path Matcher and the Query Codec (the path-parser and
  query-string packages, not under src/), as far as sections 3 and 6 of the
  specification describe them. A template is \<open>/<segment>(/<segment>)*\<close>; a segment is
  a literal, \<open>:name\<close>, which captures one non-empty segment, or \<open>*name\<close>, which captures
  the rest of the path, slashes included. The codec writes \<open>key=value\<close> pairs joined
  by \<open>&\<close> and reads them back, ignoring a leading question mark. Matcher and codec
  encode the five characters they give a meaning to, \<open>%\<close>, \<open>/\<close>, \<open>?\<close>, \<open>&\<close> and \<open>=\<close>,
  as \<open>%25\<close>, \<open>%2F\<close>, \<open>%3F\<close>, \<open>%26\<close> and \<open>%3D\<close> where they write a value, and decode them
  where they read one. The theorems that do not name this instance hold for every
  \<open>libs\<close>; the instance evaluates them on concrete inputs, and it decides what the
  absent packages alone decide.
\<close>

datatype segment = Lit string | Param string | Splat string

definition escape_char :: "char \<Rightarrow> string" where
  "escape_char c =
     (if c = CHR ''%'' then ''%25''
      else if c = CHR ''/'' then ''%2F''
      else if c = CHR ''?'' then ''%3F''
      else if c = CHR ''&'' then ''%26''
      else if c = CHR ''='' then ''%3D''
      else [c])"

definition escape :: "string \<Rightarrow> string" where
  "escape s = concat (map escape_char s)"

definition unescape_pair :: "char \<Rightarrow> char \<Rightarrow> char option" where
  "unescape_pair a b =
     (if a = CHR ''2'' \<and> b = CHR ''5'' then Some CHR ''%''
      else if a = CHR ''2'' \<and> b = CHR ''F'' then Some CHR ''/''
      else if a = CHR ''3'' \<and> b = CHR ''F'' then Some CHR ''?''
      else if a = CHR ''2'' \<and> b = CHR ''6'' then Some CHR ''&''
      else if a = CHR ''3'' \<and> b = CHR ''D'' then Some CHR ''=''
      else None)"

fun unescape :: "string \<Rightarrow> string" where
  "unescape (c # a # b # s) =
     (if c = CHR ''%'' then
        (case unescape_pair a b of
           Some x \<Rightarrow> x # unescape s
         | None \<Rightarrow> c # unescape (a # b # s))
      else c # unescape (a # b # s))"
| "unescape s = s"

text \<open>\<open>split_on c s\<close> is JavaScript's \<open>s.split(c)\<close> for a one-character separator.\<close>

fun split_on :: "char \<Rightarrow> string \<Rightarrow> string list" where
  "split_on c [] = [[]]"
| "split_on c (x # xs) =
     (if x = c then [] # split_on c xs
      else (case split_on c xs of [] \<Rightarrow> [[x]] | w # ws \<Rightarrow> (x # w) # ws))"

fun join_with :: "string \<Rightarrow> string list \<Rightarrow> string" where
  "join_with sep [] = []"
| "join_with sep [w] = w"
| "join_with sep (w # ws) = w @ sep @ join_with sep ws"

definition segment_of :: "string \<Rightarrow> segment" where
  "segment_of s =
     (case s of
        [] \<Rightarrow> Lit []
      | c # cs \<Rightarrow>
          if c = CHR '':'' then Param cs else if c = CHR ''*'' then Splat cs else Lit s)"

definition segments_of :: "string \<Rightarrow> segment list" where
  "segments_of template = map segment_of (tl (split_on CHR ''/'' template))"

fun segment_names :: "segment list \<Rightarrow> string list" where
  "segment_names [] = []"
| "segment_names (Lit s # ss) = segment_names ss"
| "segment_names (Param n # ss) = n # segment_names ss"
| "segment_names (Splat n # ss) = n # segment_names ss"

fun match_segments :: "segment list \<Rightarrow> string list \<Rightarrow> jsobj option" where
  "match_segments [] [] = Some []"
| "match_segments [] (p # ps) = None"
| "match_segments (Splat n # ss) ps =
     (if ps = [] then None else Some [(n, join_with ''/'' (map unescape ps))])"
| "match_segments (Lit s # ss) [] = None"
| "match_segments (Param n # ss) [] = None"
| "match_segments (Lit s # ss) (p # ps) =
     (if s = p then match_segments ss ps else None)"
| "match_segments (Param n # ss) (p # ps) =
     (if p = [] then None
      else (case match_segments ss ps of
              None \<Rightarrow> None
            | Some m \<Rightarrow> Some ((n, unescape p) # m)))"

fun build_segments :: "segment list \<Rightarrow> jsobj \<Rightarrow> error + string" where
  "build_segments [] ps = Inr []"
| "build_segments (sg # ss) ps =
     (case (case sg of Lit s \<Rightarrow> Inr s
                     | Param n \<Rightarrow> (case map_of ps n of
                                      None \<Rightarrow> Inl (PathError (''Missing parameter '' @ n))
                                    | Some v \<Rightarrow> Inr (escape v))
                     | Splat n \<Rightarrow> (case map_of ps n of
                                      None \<Rightarrow> Inl (PathError (''Missing parameter '' @ n))
                                    | Some v \<Rightarrow>
                                        Inr (join_with ''/''
                                               (map escape (split_on CHR ''/'' v))))) of
        Inl e \<Rightarrow> Inl e
      | Inr s \<Rightarrow>
          (case build_segments ss ps of
             Inl e \<Rightarrow> Inl e
           | Inr rest \<Rightarrow> Inr (''/'' @ s @ rest)))"

definition ex_path :: "string \<Rightarrow> path" where
  "ex_path template =
     \<lparr>test = (\<lambda>p. if p = [] \<or> hd p \<noteq> CHR ''/'' then None
                  else match_segments (segments_of template) (tl (split_on CHR ''/'' p))),
      build = build_segments (segments_of template),
      params = segment_names (segments_of template)\<rparr>"

definition ex_newPath :: "string \<Rightarrow> error + path" where
  "ex_newPath template =
     (if template = [] then Inl (PathError ''Missing path in Path constructor'')
      else Inr (ex_path template))"

definition ex_parse_pair :: "string \<Rightarrow> string \<times> string" where
  "ex_parse_pair kv =
     (unescape (takeWhile (\<lambda>c. c \<noteq> CHR ''='') kv),
      unescape (drop 1 (dropWhile (\<lambda>c. c \<noteq> CHR ''='') kv)))"

definition ex_parse :: "string \<Rightarrow> jsobj" where
  "ex_parse s =
     (let q = (if s \<noteq> [] \<and> hd s = CHR ''?'' then tl s else s)
      in if q = [] then []
         else foldl (\<lambda>acc kv. case ex_parse_pair kv of (k, v) \<Rightarrow> AList.update k v acc) []
                (split_on CHR ''&'' q))"

definition ex_stringify :: "jsobj \<Rightarrow> string" where
  "ex_stringify q = join_with ''&'' (map (\<lambda>(k, v). escape k @ ''='' @ escape v) q)"

definition ex_libs :: libs where
  "ex_libs = \<lparr>newPath = ex_newPath, parse = ex_parse, stringify = ex_stringify\<rparr>"


definition literal_path :: "string \<Rightarrow> bool" where
  "literal_path s =
     list_all (\<lambda>sg. case sg of Lit l \<Rightarrow> True | _ \<Rightarrow> False) (segments_of s)"

subsection \<open>Example routers\<close>

text \<open>
  \<open>createRouter({ items: '/items?page&sort', item: '/items/:id', create: '/items/new' })\<close>
  at the location \<open>/items/new\<close>, and \<open>createRouter({ items: '/items' }, { base: '/app' })\<close>
  at \<open>/app/items\<close>.
\<close>

definition ex_config :: "(string \<times> string) list" where
  "ex_config = [(''items'', ''/items?page&sort''), (''item'', ''/items/:id''),
                (''create'', ''/items/new'')]"

definition at_path :: "string \<Rightarrow> string \<Rightarrow> location" where
  "at_path p s = \<lparr>pathname = p, search = s, state = None\<rparr>"

definition ex_router :: router where
  "ex_router =
     \<lparr>base = None,
      routes = [\<lparr>rid = 0, name = ''items'', rpath = ex_path ''/items''\<rparr>,
                \<lparr>rid = 1, name = ''item'', rpath = ex_path ''/items/:id''\<rparr>,
                \<lparr>rid = 2, name = ''create'', rpath = ex_path ''/items/new''\<rparr>],
      hlocation = at_path ''/items/new'' '''',
      listeners = [], calls = [], fresh = 3\<rparr>"

definition ex_item :: route where
  "ex_item = \<lparr>rid = 1, name = ''item'', rpath = ex_path ''/items/:id''\<rparr>"

text \<open>\<open>{ id: '1', sort: 'asc', page: undefined }\<close>\<close>

definition ex_args :: jsargs where
  "ex_args = [(''id'', Some ''1''), (''sort'', Some ''asc''), (''page'', None)]"

definition ex_app_router :: router where
  "ex_app_router =
     \<lparr>base = Some ''/app'',
      routes = [\<lparr>rid = 0, name = ''items'', rpath = ex_path ''/app/items''\<rparr>],
      hlocation = at_path ''/app/items'' '''',
      listeners = [], calls = [], fresh = 1\<rparr>"

text \<open>
  \<open>createRouter({ items: '/items' })\<close> and
  \<open>createRouter({ items: '/items' }, { base: '/' })\<close>, both at \<open>/items\<close>.
\<close>

definition ex_plain_router :: router where
  "ex_plain_router =
     \<lparr>base = None,
      routes = [\<lparr>rid = 0, name = ''items'', rpath = ex_path ''/items''\<rparr>],
      hlocation = at_path ''/items'' '''',
      listeners = [], calls = [], fresh = 1\<rparr>"

definition ex_root_router :: router where
  "ex_root_router =
     \<lparr>base = Some '''',
      routes = [\<lparr>rid = 0, name = ''items'', rpath = ex_path ''/items''\<rparr>],
      hlocation = at_path ''/items'' '''',
      listeners = [], calls = [], fresh = 1\<rparr>"

text \<open>
  \<open>createRouter({ item: '/items/:id', '2': '/items/new' })\<close> at \<open>/items/new\<close>: the
  route \<open>2\<close> is declared last and enumerated first.
\<close>

definition ex_numeric_config :: "(string \<times> string) list" where
  "ex_numeric_config = [(''item'', ''/items/:id''), (''2'', ''/items/new'')]"

definition ex_numeric_router :: router where
  "ex_numeric_router =
     \<lparr>base = None,
      routes = [\<lparr>rid = 0, name = ''2'', rpath = ex_path ''/items/new''\<rparr>,
                \<lparr>rid = 1, name = ''item'', rpath = ex_path ''/items/:id''\<rparr>],
      hlocation = at_path ''/items/new'' '''',
      listeners = [], calls = [], fresh = 2\<rparr>"

text \<open>The example router with two listeners registered, \<open>7\<close> and then \<open>8\<close>.\<close>

definition ex_listening :: router where
  "ex_listening = listen 8 (listen 7 ex_router)"

subsection \<open>Reading back a URL, and object identities\<close>

text \<open>
  Modelled from the spec: the Location Store holding the URL \<open>u\<close>, as after a load of
  that URL: the pathname is \<open>u\<close> up to its first question mark, the search is the rest,
  question mark included.
\<close>

definition visit :: "string \<Rightarrow> router \<Rightarrow> router" where
  "visit u r =
     r\<lparr>hlocation := \<lparr>pathname = takeWhile (\<lambda>c. c \<noteq> CHR ''?'') u,
                      search = dropWhile (\<lambda>c. c \<noteq> CHR ''?'') u, state = None\<rparr>\<rparr>"

text \<open>
  \<open>get current() { return getActiveRoute(); }\<close> as a step: the value read and the
  closure after the read, which the getter leaves as it was.
\<close>

definition read_current :: "router \<Rightarrow> route option \<times> router" where
  "read_current r = (current r, r)"

text \<open>The identities of the objects handed to listeners in a list of calls.\<close>

definition call_ids :: "(nat \<times> snapshot option) list \<Rightarrow> nat list" where
  "call_ids cs = map sid (List.map_filter snd cs)"

text \<open>
  Every object made so far has an identity below \<open>fresh\<close>, no two route objects and
  no two objects handed to listeners share one.
\<close>

definition wf_ids :: "router \<Rightarrow> bool" where
  "wf_ids r =
     (list_all (\<lambda>rt. rid rt < fresh r) (routes r) \<and>
      list_all (\<lambda>i. i < fresh r) (call_ids (calls r)) \<and>
      distinct (map rid (routes r)) \<and>
      distinct (call_ids (calls r)) \<and>
      list_all (\<lambda>i. i \<notin> set (map rid (routes r))) (call_ids (calls r)))"

section \<open>Construction\<close>

text \<open>
  The routes array has one element for each enumerated entry, in the order of the
  enumeration, with consecutive identities; the matcher of each is compiled from the
  normalised base followed by the template's path part.
\<close>

lemma compile_routes_names:
  "compile_routes L b i config = Inr rs \<Longrightarrow> map name rs = map fst config"
  by (induction config arbitrary: i rs) (auto split: sum.splits)

lemma compile_routes_length:
  "compile_routes L nb i config = Inr rs \<Longrightarrow> length rs = length config"
  using compile_routes_names[of L nb i config rs] by (metis length_map)

lemma with_base_prefix:
  "with_base nb p = (case nb of None \<Rightarrow> [] | Some s \<Rightarrow> s) @ p"
  by (simp add: with_base_def split: option.splits)

lemma compile_routes_nth:
  "compile_routes L nb i config = Inr rs \<Longrightarrow> k < length config \<Longrightarrow>
     name (rs ! k) = fst (config ! k) \<and> rid (rs ! k) = i + k \<and>
     newPath L (with_base nb (routePath (snd (config ! k)))) = Inr (rpath (rs ! k))"
proof (induction config arbitrary: i rs k)
  case Nil
  then show ?case by simp
next
  case (Cons a config)
  obtain n t where a: "a = (n, t)" by (cases a)
  from Cons.prems(1) a obtain p rs' where
    p: "newPath L (with_base nb (routePath t)) = Inr p" and
    c: "compile_routes L nb (Suc i) config = Inr rs'" and
    rs: "rs = \<lparr>rid = i, name = n, rpath = p\<rparr> # rs'"
    by (auto split: sum.splits)
  show ?case
  proof (cases k)
    case 0
    then show ?thesis using rs a p by simp
  next
    case (Suc k')
    with Cons.prems(2) have "k' < length config" by simp
    from Cons.IH[OF c this] show ?thesis using Suc rs by simp
  qed
qed

lemma compile_routes_rid:
  "compile_routes L b i config = Inr rs \<Longrightarrow> map rid rs = [i ..< i + length config]"
proof (induction config arbitrary: i rs)
  case Nil
  then show ?case by simp
next
  case (Cons a config)
  obtain n t where a: "a = (n, t)" by (cases a)
  from Cons.prems a obtain p rs' where
    rs: "rs = \<lparr>rid = i, name = n, rpath = p\<rparr> # rs'" and
    c: "compile_routes L b (Suc i) config = Inr rs'"
    by (auto split: sum.splits)
  from Cons.IH[OF c] have "map rid rs' = [Suc i ..< Suc i + length config]" .
  with rs show ?case by (simp add: upt_rec)
qed



lemma set_for_in: "set (for_in obj) = set obj"
  by (auto simp: for_in_def)

section \<open>The reference instance on the examples\<close>

lemma for_in_ex:
  "for_in ex_config = ex_config"
  "for_in [(''items'', ''/items'')] = [(''items'', ''/items'')]"
  "for_in ex_numeric_config = [(''2'', ''/items/new''), (''item'', ''/items/:id'')]"
  by (simp_all add: for_in_def is_array_index_def index_value_def ex_config_def
      ex_numeric_config_def)


lemma createRouter_ex_app:
  "createRouter ex_libs [(''items'', ''/items'')] (Some ''/app'') (at_path ''/app/items'' '''')
     = Inr ex_app_router"
  by (simp add: createRouter_def for_in_ex normalize_base_def ex_libs_def ex_newPath_def
      with_base_def routePath_def ex_app_router_def)

lemma createRouter_ex_bare:
  "createRouter ex_libs [(''items'', ''/items'')] (Some ''app'') (at_path ''/app/items'' '''')
     = Inr ex_app_router"
  by (simp add: createRouter_def for_in_ex normalize_base_def ex_libs_def ex_newPath_def
      with_base_def routePath_def ex_app_router_def)

lemma createRouter_ex_root:
  "createRouter ex_libs [(''items'', ''/items'')] (Some ''/'') (at_path ''/items'' '''')
     = Inr ex_root_router"
  by (simp add: createRouter_def for_in_ex normalize_base_def ex_libs_def ex_newPath_def
      with_base_def routePath_def ex_root_router_def)

lemma createRouter_ex_numeric:
  "createRouter ex_libs ex_numeric_config None (at_path ''/items/new'' '''')
     = Inr ex_numeric_router"
  by (simp add: createRouter_def for_in_ex normalize_base_def ex_libs_def ex_newPath_def
      with_base_def routePath_def ex_numeric_router_def)

lemma ex_test_simps:
  "test (ex_path ''/items'') ''/items/new'' = None"
  "test (ex_path ''/items/:id'') ''/items/new'' = Some [(''id'', ''new'')]"
  "test (ex_path ''/items/new'') ''/items/new'' = Some []"
  "test (ex_path ''/items'') ''/items/7'' = None"
  "test (ex_path ''/items/:id'') ''/items/7'' = Some [(''id'', ''7'')]"
  "test (ex_path ''/items/new'') ''/items/7'' = None"
  "test (ex_path ''/app/items'') ''/app/items'' = Some []"
  by (simp_all add: ex_path_def segments_of_def segment_of_def escape_def escape_char_def)

lemma ex_test_nonexistent:
  "test (ex_path ''/items'') ''/nonexistent'' = None"
  "test (ex_path ''/items/:id'') ''/nonexistent'' = None"
  "test (ex_path ''/items/new'') ''/nonexistent'' = None"
  by (simp_all add: ex_path_def segments_of_def segment_of_def escape_def escape_char_def)


lemma ex_path_simps:
  "params (ex_path ''/items'') = []"
  "params (ex_path ''/items/:id'') = [''id'']"
  "params (ex_path ''/items/new'') = []"
  "params (ex_path ''/app/items'') = []"
  "build (ex_path ''/items/:id'') [(''id'', ''7'')] = Inr ''/items/7''"
  "build (ex_path ''/items/:id'') [(''id'', ''1'')] = Inr ''/items/1''"
  "build (ex_path ''/items/new'') [] = Inr ''/items/new''"
  "build (ex_path ''/app/items'') [] = Inr ''/app/items''"
  by (simp_all add: ex_path_def segments_of_def segment_of_def escape_def escape_char_def)

lemma ex_stringify_empty: "(ex_stringify q = []) = (q = [])"
proof (cases q)
  case Nil
  then show ?thesis by (simp add: ex_stringify_def)
next
  case (Cons a q')
  obtain k v where a: "a = (k, v)" by (cases a)
  show ?thesis
    using Cons a by (cases q') (simp_all add: ex_stringify_def)
qed

lemma ex_codec_simps:
  "stringify ex_libs [] = []"
  "stringify ex_libs [(''sort'', ''asc'')] = ''sort=asc''"
  "stringify ex_libs [(''foo'', ''bar''), (''page'', ''2'')] = ''foo=bar&page=2''"
  "parse ex_libs [] = []"
  "parse ex_libs ''?foo=bar'' = [(''foo'', ''bar'')]"
  "parse ex_libs ''?sort=asc'' = [(''sort'', ''asc'')]"
  by (simp_all add: ex_libs_def ex_stringify_def ex_parse_def ex_parse_pair_def escape_def
      escape_char_def)

lemma ex_names: "map name (routes ex_router) = [''items'', ''item'', ''create'']"
  by (simp add: ex_router_def)

lemma ex_getRoute_item: "getRoute ex_router ''item'' = Inr ex_item"
  by (simp add: getRoute_def ex_router_def ex_item_def)

lemma ex_listening_eq:
  "ex_listening = ex_router\<lparr>listeners := [7, 8]\<rparr>"
  by (simp add: ex_listening_def listen_def ex_router_def)

lemma splitParams_ex:
  "splitParams ex_item (Some ex_args) = ([(''id'', ''1'')], [(''sort'', ''asc'')])"
  by (simp add: splitParams_def entries_of_def ex_item_def ex_args_def ex_path_def
      segments_of_def segment_of_def)

section \<open>Route resolution\<close>



text \<open>
  The claim as stated fails for a name that is an array index: in
  \<open>{ item: '/items/:id', '2': '/items/new' }\<close> both matchers accept \<open>/items/new\<close>, and
  the current route is \<open>2\<close>, declared after \<open>item\<close>.
\<close>

theorem getActiveRoute_first_match_counterexample:
  "createRouter ex_libs ex_numeric_config None (at_path ''/items/new'' '''')
     = Inr ex_numeric_router \<and>
   map fst ex_numeric_config = [''item'', ''2''] \<and>
   test (ex_path ''/items/:id'') ''/items/new'' \<noteq> None \<and>
   test (ex_path ''/items/new'') ''/items/new'' \<noteq> None \<and>
   map_option name (current ex_numeric_router) = Some ''2''"
  using createRouter_ex_numeric
  by (simp add: ex_numeric_config_def current_def getActiveRoute_def ex_numeric_router_def
      at_path_def ex_test_simps)

text \<open>
  C6. Reading \<open>current\<close> cannot throw: it is \<open>routes.find\<close>, which yields a route or
  \<open>undefined\<close>, and it is \<open>undefined\<close> exactly when no configured route's matcher
  accepts the current pathname.
\<close>

theorem current_absent_iff:
  "(current r = None) =
     (\<forall>rt \<in> set (routes r). test (rpath rt) (pathname (hlocation r)) = None)"
  by (auto simp: current_def getActiveRoute_def find_None_iff)

text \<open>At \<open>/nonexistent\<close> none of the three example routes matches.\<close>

theorem current_absent_iff_witness:
  "map (\<lambda>rt. test (rpath rt) ''/nonexistent'')
       (routes (ex_router\<lparr>hlocation := at_path ''/nonexistent'' ''''\<rparr>)) = [None, None, None] \<and>
   current (ex_router\<lparr>hlocation := at_path ''/nonexistent'' ''''\<rparr>) = None"
proof -
  have a: "map (\<lambda>rt. test (rpath rt) ''/nonexistent'')
       (routes (ex_router\<lparr>hlocation := at_path ''/nonexistent'' ''''\<rparr>)) = [None, None, None]"
    by (simp add: ex_router_def ex_test_nonexistent)
  then have b: "\<forall>rt \<in> set (routes (ex_router\<lparr>hlocation := at_path ''/nonexistent'' ''''\<rparr>)).
       test (rpath rt) ''/nonexistent'' = None"
    by (simp add: ex_router_def ex_test_nonexistent)
  show ?thesis
    using a b current_absent_iff [of "ex_router\<lparr>hlocation := at_path ''/nonexistent'' ''''\<rparr>"]
    by (simp add: at_path_def)
qed

section \<open>Splitting\<close>

text \<open>
  What the loop leaves in each bucket, for an argument object (distinct keys) and
  any starting buckets.
\<close>

lemma splitParams_loop_path:
  "distinct (map fst es) \<Longrightarrow>
   map_of (fst (splitParams_loop p es (pp, qp))) k =
     (case map_of es k of
        Some (Some v) \<Rightarrow> if k \<in> set (params p) then Some v else map_of pp k
      | _ \<Rightarrow> map_of pp k)"
proof (induction es arbitrary: pp qp)
  case Nil
  then show ?case by simp
next
  case (Cons e es)
  obtain k' v' where e: "e = (k', v')" by (cases e)
  from Cons.prems e have d: "distinct (map fst es)" and nk: "k' \<notin> fst ` set es" by auto
  from nk have none: "map_of es k' = None" by (simp add: map_of_eq_None_iff)
  show ?case
    using Cons.IH[OF d] none e
    by (auto simp: update_conv split: option.splits)
qed

lemma splitParams_loop_query:
  "distinct (map fst es) \<Longrightarrow>
   map_of (snd (splitParams_loop p es (pp, qp))) k =
     (case map_of es k of
        Some (Some v) \<Rightarrow> if k \<in> set (params p) then map_of qp k else Some v
      | _ \<Rightarrow> map_of qp k)"
proof (induction es arbitrary: pp qp)
  case Nil
  then show ?case by simp
next
  case (Cons e es)
  obtain k' v' where e: "e = (k', v')" by (cases e)
  from Cons.prems e have d: "distinct (map fst es)" and nk: "k' \<notin> fst ` set es" by auto
  from nk have none: "map_of es k' = None" by (simp add: map_of_eq_None_iff)
  show ?case
    using Cons.IH[OF d] none e
    by (auto simp: update_conv split: option.splits)
qed

lemma splitParams_path:
  assumes "distinct (map fst (entries_of args))"
  shows "map_of (fst (splitParams rt args)) k =
     (case map_of (entries_of args) k of
        Some (Some v) \<Rightarrow> if k \<in> set (params (rpath rt)) then Some v else None
      | _ \<Rightarrow> None)"
  using splitParams_loop_path[OF assms, of "rpath rt" "[]" "[]" k]
  by (auto simp: splitParams_def split: option.splits)

lemma splitParams_query:
  assumes "distinct (map fst (entries_of args))"
  shows "map_of (snd (splitParams rt args)) k =
     (case map_of (entries_of args) k of
        Some (Some v) \<Rightarrow> if k \<in> set (params (rpath rt)) then None else Some v
      | _ \<Rightarrow> None)"
  using splitParams_loop_query[OF assms, of "rpath rt" "[]" "[]" k]
  by (auto simp: splitParams_def split: option.splits)

text \<open>
  C2. For an argument object of \<open>url\<close>, \<open>push\<close> or \<open>replace\<close> (its keys are distinct;
  \<open>None\<close> for the argument left out), the two buckets of \<open>splitParams\<close> have no key
  in common; a key with a defined value is in the path bucket alone, with its value,
  when it is a placeholder name of the route's matcher, and in the query bucket alone,
  with its value, when it is not; a key that is \<open>undefined\<close> or not there is in neither.
\<close>

theorem splitParams_partition:
  assumes "distinct (map fst (entries_of args))"
    and "splitParams rt args = (pathParams, queryParams)"
  shows "dom (map_of pathParams) \<inter> dom (map_of queryParams) = {} \<and>
    (\<forall>k v. map_of (entries_of args) k = Some (Some v) \<and> k \<in> set (params (rpath rt)) \<longrightarrow>
        map_of pathParams k = Some v \<and> map_of queryParams k = None) \<and>
    (\<forall>k v. map_of (entries_of args) k = Some (Some v) \<and> k \<notin> set (params (rpath rt)) \<longrightarrow>
        map_of queryParams k = Some v \<and> map_of pathParams k = None) \<and>
    (\<forall>k. map_of (entries_of args) k = Some None \<or> map_of (entries_of args) k = None \<longrightarrow>
        map_of pathParams k = None \<and> map_of queryParams k = None)"
proof -
  have pp: "map_of pathParams k =
     (case map_of (entries_of args) k of
        Some (Some v) \<Rightarrow> if k \<in> set (params (rpath rt)) then Some v else None
      | _ \<Rightarrow> None)" for k
    using splitParams_path[OF assms(1), of rt k] assms(2) by simp
  have qp: "map_of queryParams k =
     (case map_of (entries_of args) k of
        Some (Some v) \<Rightarrow> if k \<in> set (params (rpath rt)) then None else Some v
      | _ \<Rightarrow> None)" for k
    using splitParams_query[OF assms(1), of rt k] assms(2) by simp
  have disj: "map_of pathParams k = None \<or> map_of queryParams k = None" for k
    by (simp add: pp qp split: option.splits)
  have "dom (map_of pathParams) \<inter> dom (map_of queryParams) = {}"
  proof (rule ccontr)
    assume "dom (map_of pathParams) \<inter> dom (map_of queryParams) \<noteq> {}"
    then obtain k where "k \<in> dom (map_of pathParams)" "k \<in> dom (map_of queryParams)"
      by blast
    then show False using disj[of k] by (auto simp: domIff)
  qed
  moreover have "\<forall>k v. map_of (entries_of args) k = Some (Some v) \<and> k \<in> set (params (rpath rt)) \<longrightarrow>
        map_of pathParams k = Some v \<and> map_of queryParams k = None"
    by (simp add: pp qp)
  moreover have "\<forall>k v. map_of (entries_of args) k = Some (Some v) \<and> k \<notin> set (params (rpath rt)) \<longrightarrow>
        map_of queryParams k = Some v \<and> map_of pathParams k = None"
    by (simp add: pp qp)
  moreover have "\<forall>k. map_of (entries_of args) k = Some None \<or> map_of (entries_of args) k = None \<longrightarrow>
        map_of pathParams k = None \<and> map_of queryParams k = None"
    by (auto simp: pp qp)
  ultimately show ?thesis by blast
qed

text \<open>
  Route \<open>/items/:id\<close> and the values \<open>{ id: '1', sort: 'asc', page: undefined }\<close>:
  \<open>id\<close> goes to the path bucket, \<open>sort\<close> to the query bucket, \<open>page\<close> to neither.
\<close>

theorem splitParams_partition_witness:
  "distinct (map fst (entries_of (Some ex_args))) \<and>
   splitParams ex_item (Some ex_args) = ([(''id'', ''1'')], [(''sort'', ''asc'')]) \<and>
   map_of (entries_of (Some ex_args)) ''id'' = Some (Some ''1'') \<and>
   ''id'' \<in> set (params (rpath ex_item)) \<and>
   map_of (entries_of (Some ex_args)) ''sort'' = Some (Some ''asc'') \<and>
   ''sort'' \<notin> set (params (rpath ex_item)) \<and>
   map_of (entries_of (Some ex_args)) ''page'' = Some None \<and>
   dom (map_of [(''id'', ''1'')]) \<inter> dom (map_of [(''sort'', ''asc'')]) = {} \<and>
   map_of [(''sort'', ''asc'')] ''page'' = None"
proof -
  have d: "distinct (map fst (entries_of (Some ex_args)))"
    by (simp add: entries_of_def ex_args_def)
  have a: "map_of (entries_of (Some ex_args)) ''id'' = Some (Some ''1'')"
    "map_of (entries_of (Some ex_args)) ''sort'' = Some (Some ''asc'')"
    "map_of (entries_of (Some ex_args)) ''page'' = Some None"
    by (simp_all add: entries_of_def ex_args_def)
  have n: "''id'' \<in> set (params (rpath ex_item))" "''sort'' \<notin> set (params (rpath ex_item))"
    by (simp_all add: ex_item_def ex_path_def segments_of_def segment_of_def)
  show ?thesis
    using d a n splitParams_ex splitParams_partition [OF d splitParams_ex]
    by simp
qed

section \<open>Lookup by name and url\<close>

lemma getRoute_present:
  "n \<in> set (map name (routes r)) \<Longrightarrow> \<exists>rt. getRoute r n = Inr rt \<and> name rt = n \<and> rt \<in> set (routes r)"
proof -
  assume "n \<in> set (map name (routes r))"
  then have "find (\<lambda>rt. name rt = n) (routes r) \<noteq> None"
    by (auto simp: find_None_iff)
  then obtain rt where f: "find (\<lambda>rt. name rt = n) (routes r) = Some rt" by blast
  then have "name rt = n \<and> rt \<in> set (routes r)"
    by (auto simp: find_Some_iff)
  with f show ?thesis by (simp add: getRoute_def)
qed

lemma getRoute_absent:
  "n \<notin> set (map name (routes r)) \<Longrightarrow> getRoute r n = Inl (Error (''Can not find route for '' @ n))"
proof -
  assume "n \<notin> set (map name (routes r))"
  then have "find (\<lambda>rt. name rt = n) (routes r) = None"
    by (auto simp: find_None_iff)
  then show ?thesis by (simp add: getRoute_def)
qed

text \<open>
  C5. For a route name of the table, \<open>url\<close> throws what \<open>build\<close> throws, or returns
  the built path alone when the query bucket is empty (nothing is appended, so no
  trailing question mark) and the built path, a question mark and the encoded query
  when it is not. The code tests the encoded string where the claim speaks of the
  bucket; the hypothesis on the codec, that it encodes the empty object and no other
  as the empty string, joins the two.
\<close>

theorem url_format:
  assumes "n \<in> set (map name (routes r))"
    and "\<forall>q. (stringify L q = []) = (q = [])"
  shows "\<exists>rt pathParams queryParams.
           getRoute r n = Inr rt \<and> name rt = n \<and>
           splitParams rt args = (pathParams, queryParams) \<and>
           (case build (rpath rt) pathParams of
              Inl e \<Rightarrow> url L r n args = Inl e
            | Inr p \<Rightarrow>
                url L r n args =
                  Inr (if queryParams = [] then p else p @ ''?'' @ stringify L queryParams))"
proof -
  from getRoute_present[OF assms(1)] obtain rt where
    rt: "getRoute r n = Inr rt" "name rt = n" by blast
  obtain pp qp where sp: "splitParams rt args = (pp, qp)" by (cases "splitParams rt args")
  from assms(2) have e: "(stringify L qp = []) = (qp = [])" by simp
  have "case build (rpath rt) pp of
              Inl e \<Rightarrow> url L r n args = Inl e
            | Inr p \<Rightarrow>
                url L r n args =
                  Inr (if qp = [] then p else p @ ''?'' @ stringify L qp)"
    using rt sp e by (cases "qp = []") (auto simp: url_def Let_def split: sum.splits)
  with rt sp show ?thesis by blast
qed

text \<open>
  \<open>url('item', { id: '1', sort: 'asc', page: undefined })\<close> is \<open>/items/1?sort=asc\<close> and
  \<open>url('item', { id: '1' })\<close> is \<open>/items/1\<close>.
\<close>

theorem url_format_witness:
  "''item'' \<in> set (map name (routes ex_router)) \<and>
   (\<forall>q. (stringify ex_libs q = []) = (q = [])) \<and>
   url ex_libs ex_router ''item'' (Some ex_args) = Inr ''/items/1?sort=asc'' \<and>
   url ex_libs ex_router ''item'' (Some [(''id'', Some ''1'')]) = Inr ''/items/1''"
proof -
  have n: "''item'' \<in> set (map name (routes ex_router))"
    by (simp add: ex_names)
  have c: "\<forall>q. (stringify ex_libs q = []) = (q = [])"
    by (simp add: ex_libs_def ex_stringify_empty)
  have s: "splitParams ex_item (Some [(''id'', Some ''1'')]) = ([(''id'', ''1'')], [])"
    by (simp add: splitParams_def entries_of_def ex_item_def ex_path_simps)
  have b: "build (rpath ex_item) [(''id'', ''1'')] = Inr ''/items/1''"
    by (simp add: ex_item_def ex_path_simps)
  show ?thesis
    using n c url_format [OF n c, of "Some ex_args"]
      url_format [OF n c, of "Some [(''id'', Some ''1'')]"]
    by (simp add: ex_getRoute_item splitParams_ex s b ex_codec_simps)
qed

text \<open>
  C7. For a name that no route of the table has, \<open>url\<close>, \<open>push\<close> and \<open>replace\<close> each
  throw the lookup error, and the router after the failed \<open>push\<close> or \<open>replace\<close> is the
  router before it: routes, listeners, location and calls are untouched.
\<close>

theorem unknown_route_throws:
  assumes "n \<notin> set (map name (routes r))"
  shows "url L r n args = Inl (Error (''Can not find route for '' @ n)) \<and>
         push L n args r = (Inl (Error (''Can not find route for '' @ n)), r) \<and>
         replace L n args r = (Inl (Error (''Can not find route for '' @ n)), r)"
  using getRoute_absent[OF assms] by (simp add: url_def push_def replace_def)

text \<open>No route of the example is named \<open>nope\<close>.\<close>

theorem unknown_route_throws_witness:
  "''nope'' \<notin> set (map name (routes ex_listening)) \<and>
   url ex_libs ex_listening ''nope'' None = Inl (Error ''Can not find route for nope'') \<and>
   push ex_libs ''nope'' None ex_listening =
     (Inl (Error ''Can not find route for nope''), ex_listening) \<and>
   replace ex_libs ''nope'' None ex_listening =
     (Inl (Error ''Can not find route for nope''), ex_listening)"
proof -
  have n: "''nope'' \<notin> set (map name (routes ex_listening))"
    by (simp add: ex_listening_eq ex_names)
  show ?thesis
    using n unknown_route_throws [OF n, of ex_libs None] by simp
qed

section \<open>Properties of the reference matcher and codec\<close>

text \<open>
  Splitting at a separator, the template of a path under a literal prefix, and the
  two encodings read back.
\<close>

lemma split_on_nonempty: "split_on c s \<noteq> []"
  by (induction s) (auto split: list.splits)

lemma split_on_append_sep:
  "split_on c (xs @ c # ys) = split_on c xs @ split_on c ys"
proof (induction xs)
  case Nil
  then show ?case by simp
next
  case (Cons x xs)
  obtain w ws where w: "split_on c xs = w # ws"
    using split_on_nonempty[of c xs] by (cases "split_on c xs") auto
  show ?case using Cons w by simp
qed

lemma segments_of_append:
  assumes "t \<noteq> []" and "hd t = CHR ''/''"
  shows "segments_of (s @ t) = segments_of s @ segments_of t"
proof -
  from assms obtain ys where t: "t = CHR ''/'' # ys" by (cases t) auto
  have "tl (split_on CHR ''/'' (s @ CHR ''/'' # ys))
          = tl (split_on CHR ''/'' s) @ split_on CHR ''/'' ys"
    using split_on_nonempty[of "CHR ''/''" s] by (simp add: split_on_append_sep)
  then show ?thesis by (simp add: segments_of_def t)
qed

lemma concat_split_on:
  "concat (map (\<lambda>w. c # w) (split_on c s)) = c # s"
proof (induction s)
  case Nil
  then show ?case by simp
next
  case (Cons x xs)
  obtain w ws where w: "split_on c xs = w # ws"
    using split_on_nonempty[of c xs] by (cases "split_on c xs") auto
  show ?case using Cons w by auto
qed

lemma segment_of_literal:
  "(case segment_of w of Lit l \<Rightarrow> True | _ \<Rightarrow> False) \<Longrightarrow> segment_of w = Lit w"
  by (cases w) (auto simp: segment_of_def split: if_splits)

lemma build_literal_prefix:
  assumes "list_all (\<lambda>sg. case sg of Lit l \<Rightarrow> True | _ \<Rightarrow> False) (map segment_of ws)"
  shows "build_segments (map segment_of ws @ segs) pp =
           (case build_segments segs pp of
              Inl e \<Rightarrow> Inl e
            | Inr rest \<Rightarrow> Inr (concat (map (\<lambda>w. CHR ''/'' # w) ws) @ rest))"
    and "segment_names (map segment_of ws @ segs) = segment_names segs"
  using assms
  by (induction ws) (auto simp: segment_of_literal split: sum.splits)

lemma literal_path_build:
  assumes "literal_path s" and "s = [] \<or> hd s = CHR ''/''" and "t \<noteq> []" and "hd t = CHR ''/''"
  shows "build (ex_path (s @ t)) pp =
           (case build (ex_path t) pp of Inl e \<Rightarrow> Inl e | Inr rest \<Rightarrow> Inr (s @ rest))"
    and "params (ex_path (s @ t)) = params (ex_path t)"
proof -
  have l: "list_all (\<lambda>sg. case sg of Lit l \<Rightarrow> True | _ \<Rightarrow> False)
             (map segment_of (tl (split_on CHR ''/'' s)))"
    using assms(1) by (simp add: literal_path_def segments_of_def)
  have c: "concat (map (\<lambda>w. CHR ''/'' # w) (tl (split_on CHR ''/'' s))) = s"
  proof (cases s)
    case Nil
    then show ?thesis by simp
  next
    case (Cons x xs)
    with assms(2) have "x = CHR ''/''" by simp
    with Cons show ?thesis by (simp add: concat_split_on)
  qed
  have sg: "segments_of (s @ t) = map segment_of (tl (split_on CHR ''/'' s)) @ segments_of t"
    using segments_of_append[OF assms(3,4), of s] by (simp add: segments_of_def)
  show "build (ex_path (s @ t)) pp =
           (case build (ex_path t) pp of Inl e \<Rightarrow> Inl e | Inr rest \<Rightarrow> Inr (s @ rest))"
    using build_literal_prefix(1)[OF l, of "segments_of t" pp]
    by (simp add: ex_path_def sg c split: sum.splits)
  show "params (ex_path (s @ t)) = params (ex_path t)"
    using build_literal_prefix(2)[OF l, of "segments_of t"]
    by (simp add: ex_path_def sg)
qed

subsection \<open>Encoding and decoding a value\<close>









subsection \<open>Splitting and joining\<close>





subsection \<open>The matcher reads back what it built\<close>






subsection \<open>The codec reads back what it wrote\<close>





section \<open>Round trip\<close>








section \<open>Notification\<close>

text \<open>The calls that one pass over the listeners appends.\<close>

lemma copy_route_frame [simp]:
  "copy_route L (r\<lparr>calls := c, fresh := f\<rparr>) rt i = copy_route L r rt i"
  by (simp add: copy_route_def route_params_def route_queries_def route_pathname_def)

lemma call_listeners_None:
  "call_listeners L None ls r = r\<lparr>calls := calls r @ map (\<lambda>l. (l, None)) ls\<rparr>"
  by (induction ls arbitrary: r) simp_all

lemma call_listeners_Some:
  "call_listeners L (Some rt) ls r =
     r\<lparr>calls := calls r @ map (\<lambda>(i, l). (l, Some (copy_route L r rt i))) (enumerate (fresh r) ls),
       fresh := fresh r + length ls\<rparr>"
  by (induction ls arbitrary: r) simp_all

lemma notify_suppressed:
  "action u = Replace \<Longrightarrow> is_query_update (location u) \<Longrightarrow> notify L u r = r"
  by (simp add: notify_def)

lemma notify_calls:
  assumes "\<not> (action u = Replace \<and> is_query_update (location u))"
  shows "\<exists>cs. calls (notify L u r) = calls r @ cs \<and> map fst cs = listeners r \<and>
           (\<forall>c \<in> set cs. map_option sname (snd c) = map_option name (getActiveRoute r)) \<and>
           listeners (notify L u r) = listeners r \<and> routes (notify L u r) = routes r \<and>
           hlocation (notify L u r) = hlocation r"
proof (cases "getActiveRoute r")
  case None
  have "notify L u r = call_listeners L None (listeners r) r"
    using assms None by (auto simp: notify_def)
  then show ?thesis
    using None by (simp add: call_listeners_None comp_def)
next
  case (Some rt)
  have "map fst (map (\<lambda>(i, l). (l, Some (copy_route L r rt i))) (enumerate (fresh r) (listeners r)))
        = listeners r"
    by (simp add: comp_def case_prod_unfold map_snd_enumerate)
  moreover have "\<forall>c \<in> set (map (\<lambda>(i, l). (l, Some (copy_route L r rt i))) (enumerate (fresh r) (listeners r))).
        map_option sname (snd c) = Some (name rt)"
    by (auto simp: copy_route_def)
  moreover have "notify L u r = call_listeners L (Some rt) (listeners r) r"
    using assms Some by (auto simp: notify_def)
  ultimately show ?thesis
    using Some by (simp add: call_listeners_Some)
qed

lemma count_list_distinct:
  "distinct xs \<Longrightarrow> x \<in> set xs \<Longrightarrow> count_list xs x = 1"
  by (induction xs) auto

lemma getActiveRoute_cong:
  "routes a = routes b \<Longrightarrow> hlocation a = hlocation b \<Longrightarrow> getActiveRoute a = getActiveRoute b"
  by (simp add: getActiveRoute_def)

lemma notify_fan_out:
  assumes "\<not> (action u = Replace \<and> is_query_update (location u))"
    and "distinct (listeners r)"
  shows "\<exists>cs. calls (notify L u r) = calls r @ cs \<and> map fst cs = listeners r \<and>
           (\<forall>l \<in> set (listeners r). count_list (map fst cs) l = 1) \<and>
           (\<forall>c \<in> set cs. map_option sname (snd c) = map_option name (current (notify L u r)))"
proof -
  from notify_calls[OF assms(1), of L r] obtain cs where
    cs: "calls (notify L u r) = calls r @ cs" "map fst cs = listeners r"
        "\<forall>c \<in> set cs. map_option sname (snd c) = map_option name (getActiveRoute r)"
        "routes (notify L u r) = routes r" "hlocation (notify L u r) = hlocation r"
    by blast
  have "current (notify L u r) = getActiveRoute r"
    unfolding current_def using cs(4,5) by (rule getActiveRoute_cong)
  moreover have "\<forall>l \<in> set (listeners r). count_list (map fst cs) l = 1"
    using assms(2) cs(2) by (simp add: count_list_distinct)
  ultimately show ?thesis using cs(1,2,3) by auto
qed

lemma push_cases:
  "push L n args r = (Inr (), r') \<Longrightarrow>
     \<exists>p s. r' = notify L \<lparr>action = Push, location = \<lparr>pathname = p, search = s, state = None\<rparr>\<rparr>
                   (r\<lparr>hlocation := \<lparr>pathname = p, search = s, state = None\<rparr>\<rparr>)"
  by (auto simp: push_def history_push_def Let_def split: sum.splits prod.splits)

lemma replace_cases:
  "replace L n args r = (Inr (), r') \<Longrightarrow>
     \<exists>p s. r' = notify L \<lparr>action = Replace, location = \<lparr>pathname = p, search = s, state = None\<rparr>\<rparr>
                   (r\<lparr>hlocation := \<lparr>pathname = p, search = s, state = None\<rparr>\<rparr>)"
  by (auto simp: replace_def history_replace_def Let_def split: sum.splits prod.splits)

lemma setQuery_eq:
  "setQuery L key v r =
     r\<lparr>hlocation :=
         \<lparr>pathname = pathname (hlocation r),
          search = ''?'' @ stringify L
             (case v of None \<Rightarrow> AList.delete key (parse L (search (hlocation r)))
                      | Some s \<Rightarrow> AList.update key s (parse L (search (hlocation r)))),
          state = Some \<lparr>isQueryUpdate = True\<rparr>\<rparr>\<rparr>"
  by (simp add: setQuery_def history_replace_def Let_def notify_def is_query_update_def)

lemma ex_push:
  "push ex_libs ''item'' (Some [(''id'', Some ''7'')]) ex_listening =
     (Inr (),
      ex_router\<lparr>hlocation := at_path ''/items/7'' '''', listeners := [7, 8],
        calls := [(7, Some \<lparr>sid = 3, sname = ''item'', spath = ex_path ''/items/:id'',
                             sparams = [(''id'', ''7'')], squeries = [], spathname = ''/items/7''\<rparr>),
                  (8, Some \<lparr>sid = 4, sname = ''item'', spath = ex_path ''/items/:id'',
                             sparams = [(''id'', ''7'')], squeries = [], spathname = ''/items/7''\<rparr>)],
        fresh := 5\<rparr>)"
  by (simp add: ex_listening_eq push_def getRoute_def ex_router_def splitParams_def entries_of_def
      history_push_def notify_def is_query_update_def getActiveRoute_def ex_test_simps
      ex_path_simps copy_route_def route_params_def route_queries_def route_pathname_def
      at_path_def ex_libs_def ex_stringify_def ex_parse_def)

lemma ex_replace:
  "replace ex_libs ''item'' (Some [(''id'', Some ''7'')]) ex_listening =
     (Inr (),
      ex_router\<lparr>hlocation := at_path ''/items/7'' '''', listeners := [7, 8],
        calls := [(7, Some \<lparr>sid = 3, sname = ''item'', spath = ex_path ''/items/:id'',
                             sparams = [(''id'', ''7'')], squeries = [], spathname = ''/items/7''\<rparr>),
                  (8, Some \<lparr>sid = 4, sname = ''item'', spath = ex_path ''/items/:id'',
                             sparams = [(''id'', ''7'')], squeries = [], spathname = ''/items/7''\<rparr>)],
        fresh := 5\<rparr>)"
  by (simp add: ex_listening_eq replace_def getRoute_def ex_router_def splitParams_def entries_of_def
      history_replace_def notify_def is_query_update_def getActiveRoute_def ex_test_simps
      ex_path_simps copy_route_def route_params_def route_queries_def route_pathname_def
      at_path_def ex_libs_def ex_stringify_def ex_parse_def)

lemma ex_getRoute_listening: "getRoute ex_listening ''item'' = Inr ex_item"
  by (simp add: getRoute_def ex_listening_eq ex_router_def ex_item_def)

lemma ex_split7:
  "splitParams ex_item (Some [(''id'', Some ''7'')]) = ([(''id'', ''7'')], [])"
  by (simp add: splitParams_def entries_of_def ex_item_def ex_path_simps)

lemma ex_build7: "build (rpath ex_item) [(''id'', ''7'')] = Inr ''/items/7''"
  by (simp add: ex_item_def ex_path_simps)

lemma navigation_returns:
  assumes "getRoute r n = Inr rt" and "splitParams rt args = (pathParams, queryParams)"
    and "build (rpath rt) pathParams = Inr p"
  shows "push L n args r =
           (Inr (), notify L \<lparr>action = Push, location = \<lparr>pathname = p, search = stringify L queryParams, state = None\<rparr>\<rparr>
                      (r\<lparr>hlocation := \<lparr>pathname = p, search = stringify L queryParams, state = None\<rparr>\<rparr>))"
    and "replace L n args r =
           (Inr (), notify L \<lparr>action = Replace, location = \<lparr>pathname = p, search = stringify L queryParams, state = None\<rparr>\<rparr>
                      (r\<lparr>hlocation := \<lparr>pathname = p, search = stringify L queryParams, state = None\<rparr>\<rparr>))"
  using assms by (simp_all add: push_def replace_def history_push_def history_replace_def Let_def)

lemma notify_location:
  "hlocation (notify L u r) = hlocation r"
proof (cases "action u = Replace \<and> is_query_update (location u)")
  case True
  then show ?thesis by (simp add: notify_suppressed)
next
  case False
  from notify_calls[OF False, of L r] show ?thesis by blast
qed


text \<open>
  C4. \<open>notify\<close> returns at once, leaving the router as it is, on a \<open>Replace\<close> whose
  location state carries \<open>isQueryUpdate\<close>; that is the update \<open>setQuery\<close> causes, so
  \<open>setQuery\<close> adds no call and leaves the listeners alone. A \<open>push\<close> or \<open>replace\<close> that
  returns appends one pass over the listener set: every registered listener is
  called exactly once, with the route that is current after the navigation. And
  \<open>push\<close> and \<open>replace\<close> do return, with the location moved to the built path and
  the encoded query, whenever the name is found and \<open>build\<close> succeeds.
\<close>

theorem setQuery_silent_navigation_notifies:
  "(action u = Replace \<and> is_query_update (location u) \<longrightarrow> notify L u r = r) \<and>
   calls (setQuery L key v r) = calls r \<and>
   listeners (setQuery L key v r) = listeners r \<and>
   (distinct (listeners r) \<and>
    (push L n args r = (Inr (), r') \<or> replace L n args r = (Inr (), r')) \<longrightarrow>
      (\<exists>cs. calls r' = calls r @ cs \<and> map fst cs = listeners r \<and>
            (\<forall>l \<in> set (listeners r). count_list (map fst cs) l = 1) \<and>
            (\<forall>c \<in> set cs. map_option sname (snd c) = map_option name (current r')))) \<and>
   (getRoute r n = Inr rt \<and> splitParams rt args = (pathParams, queryParams) \<and>
    build (rpath rt) pathParams = Inr p \<longrightarrow>
      fst (push L n args r) = Inr () \<and> fst (replace L n args r) = Inr () \<and>
      hlocation (snd (push L n args r))
        = \<lparr>pathname = p, search = stringify L queryParams, state = None\<rparr> \<and>
      hlocation (snd (replace L n args r))
        = \<lparr>pathname = p, search = stringify L queryParams, state = None\<rparr>)"
proof -
  have nav: "\<exists>cs. calls r' = calls r @ cs \<and> map fst cs = listeners r \<and>
            (\<forall>l \<in> set (listeners r). count_list (map fst cs) l = 1) \<and>
            (\<forall>c \<in> set cs. map_option sname (snd c) = map_option name (current r'))"
    if d: "distinct (listeners r)"
      and n: "push L n args r = (Inr (), r') \<or> replace L n args r = (Inr (), r')"
  proof -
    from n obtain a p s where
      r': "r' = notify L \<lparr>action = a, location = \<lparr>pathname = p, search = s, state = None\<rparr>\<rparr>
                   (r\<lparr>hlocation := \<lparr>pathname = p, search = s, state = None\<rparr>\<rparr>)"
      using push_cases replace_cases by blast
    have q: "\<not> (action \<lparr>action = a, location = \<lparr>pathname = p, search = s, state = None\<rparr>\<rparr> = Replace \<and>
       is_query_update (location \<lparr>action = a, location = \<lparr>pathname = p, search = s, state = None\<rparr>\<rparr>))"
      by (simp add: is_query_update_def)
    have d': "distinct (listeners (r\<lparr>hlocation := \<lparr>pathname = p, search = s, state = None\<rparr>\<rparr>))"
      using d by simp
    show ?thesis
      using notify_fan_out[OF q d', of L] unfolding r' by simp
  qed
  have ret: "fst (push L n args r) = Inr () \<and> fst (replace L n args r) = Inr () \<and>
      hlocation (snd (push L n args r))
        = \<lparr>pathname = p, search = stringify L queryParams, state = None\<rparr> \<and>
      hlocation (snd (replace L n args r))
        = \<lparr>pathname = p, search = stringify L queryParams, state = None\<rparr>"
    if "getRoute r n = Inr rt" "splitParams rt args = (pathParams, queryParams)"
      "build (rpath rt) pathParams = Inr p"
    using navigation_returns[OF that, of L] by (simp add: notify_location)
  show ?thesis
    using nav ret by (simp add: notify_suppressed setQuery_eq)
qed

text \<open>
  With listeners \<open>7\<close> and \<open>8\<close>: \<open>push('item', { id: '7' })\<close> and
  \<open>replace('item', { id: '7' })\<close> each call \<open>7\<close> and then \<open>8\<close>, once each;
  \<open>setQuery('x', 'y')\<close> calls nobody.
\<close>

theorem setQuery_silent_navigation_notifies_witness:
  "distinct (listeners ex_listening) \<and>
   getRoute ex_listening ''item'' = Inr ex_item \<and>
   splitParams ex_item (Some [(''id'', Some ''7'')]) = ([(''id'', ''7'')], []) \<and>
   build (rpath ex_item) [(''id'', ''7'')] = Inr ''/items/7'' \<and>
   fst (push ex_libs ''item'' (Some [(''id'', Some ''7'')]) ex_listening) = Inr () \<and>
   map fst (calls (snd (push ex_libs ''item'' (Some [(''id'', Some ''7'')]) ex_listening))) = [7, 8] \<and>
   count_list (map fst (calls (snd (push ex_libs ''item'' (Some [(''id'', Some ''7'')]) ex_listening)))) 7 = 1 \<and>
   fst (replace ex_libs ''item'' (Some [(''id'', Some ''7'')]) ex_listening) = Inr () \<and>
   map fst (calls (snd (replace ex_libs ''item'' (Some [(''id'', Some ''7'')]) ex_listening))) = [7, 8] \<and>
   count_list (map fst (calls (snd (replace ex_libs ''item'' (Some [(''id'', Some ''7'')]) ex_listening)))) 8 = 1 \<and>
   pathname (hlocation (snd (replace ex_libs ''item'' (Some [(''id'', Some ''7'')]) ex_listening)))
     = ''/items/7'' \<and>
   calls (setQuery ex_libs ''x'' (Some ''y'') ex_listening) = [] \<and>
   notify ex_libs \<lparr>action = Replace,
       location = \<lparr>pathname = ''/items'', search = ''?x=y'', state = Some \<lparr>isQueryUpdate = True\<rparr>\<rparr>\<rparr>
     ex_listening = ex_listening"
proof -
  have d: "distinct (listeners ex_listening)"
    by (simp add: ex_listening_eq)
  have c: "calls ex_listening = []" "listeners ex_listening = [7, 8]"
    by (simp_all add: ex_listening_eq ex_router_def)
  note t = setQuery_silent_navigation_notifies [of
        "\<lparr>action = Replace,
          location = \<lparr>pathname = ''/items'', search = ''?x=y'', state = Some \<lparr>isQueryUpdate = True\<rparr>\<rparr>\<rparr>"
        ex_libs ex_listening "''x''" "Some ''y''" "''item''" "Some [(''id'', Some ''7'')]"
        _ ex_item "[(''id'', ''7'')]" "[]" "''/items/7''"]
  show ?thesis
    using d c ex_getRoute_listening ex_split7 ex_build7
      t [of "snd (push ex_libs ''item'' (Some [(''id'', Some ''7'')]) ex_listening)"]
      t [of "snd (replace ex_libs ''item'' (Some [(''id'', Some ''7'')]) ex_listening)"]
    by (simp add: ex_push ex_replace is_query_update_def at_path_def)
qed

text \<open>
  C10. \<open>setQuery\<close> keeps the pathname and sets the search to a question mark followed
  by the encoding of the updated object, which maps \<open>key\<close> to the value, or has no
  \<open>key\<close> when the value is \<open>undefined\<close>, and is otherwise the parsed search. Where the
  codec encodes the empty object as the empty string, unsetting the only key leaves
  the search \<open>?\<close>.
\<close>

theorem setQuery_search:
  "pathname (hlocation (setQuery L key v r)) = pathname (hlocation r) \<and>
   search (hlocation (setQuery L key v r)) =
     ''?'' @ stringify L
        (case v of None \<Rightarrow> AList.delete key (parse L (search (hlocation r)))
                 | Some s \<Rightarrow> AList.update key s (parse L (search (hlocation r)))) \<and>
   map_of (case v of None \<Rightarrow> AList.delete key (parse L (search (hlocation r)))
                   | Some s \<Rightarrow> AList.update key s (parse L (search (hlocation r))))
     = (map_of (parse L (search (hlocation r))))(key := v) \<and>
   (stringify L [] = [] \<and> map fst (parse L (search (hlocation r))) = [key] \<longrightarrow>
      search (hlocation (setQuery L key None r)) = ''?'')"
proof -
  have "AList.delete key q = []" if "map fst q = [key]" for q :: jsobj
    using that by (cases q) (auto simp: AList.delete_eq)
  then show ?thesis
    by (auto simp: setQuery_eq update_conv' delete_conv' split: option.splits)
qed

text \<open>At \<open>/items?foo=bar\<close>: unsetting \<open>foo\<close> gives \<open>?\<close>, setting \<open>page\<close> gives \<open>?foo=bar&page=2\<close>.\<close>

theorem setQuery_search_witness:
  "stringify ex_libs [] = [] \<and>
   map fst (parse ex_libs (search (hlocation (ex_router\<lparr>hlocation := at_path ''/items'' ''?foo=bar''\<rparr>))))
     = [''foo''] \<and>
   hlocation (setQuery ex_libs ''foo'' None (ex_router\<lparr>hlocation := at_path ''/items'' ''?foo=bar''\<rparr>))
     = \<lparr>pathname = ''/items'', search = ''?'', state = Some \<lparr>isQueryUpdate = True\<rparr>\<rparr> \<and>
   search (hlocation (setQuery ex_libs ''page'' (Some ''2'')
       (ex_router\<lparr>hlocation := at_path ''/items'' ''?foo=bar''\<rparr>))) = ''?foo=bar&page=2''"
proof -
  have p: "map fst (parse ex_libs (search (hlocation (ex_router\<lparr>hlocation := at_path ''/items'' ''?foo=bar''\<rparr>))))
     = [''foo'']"
    by (simp add: at_path_def ex_codec_simps)
  show ?thesis
    using p
      setQuery_search [of ex_libs "''foo''" None "ex_router\<lparr>hlocation := at_path ''/items'' ''?foo=bar''\<rparr>"]
      setQuery_search [of ex_libs "''page''" "Some ''2''" "ex_router\<lparr>hlocation := at_path ''/items'' ''?foo=bar''\<rparr>"]
    by (simp add: setQuery_eq at_path_def ex_codec_simps)
qed

section \<open>Base path\<close>

text \<open>
  On the reference matcher, \<open>url\<close> of a router mounted under a literal base is the
  normalised base followed by \<open>url\<close> of the same configuration without a base.
\<close>

lemma normalize_base_slash:
  "(case normalize_base b of None \<Rightarrow> [] | Some s \<Rightarrow> s) = []
   \<or> hd (case normalize_base b of None \<Rightarrow> [] | Some s \<Rightarrow> s) = CHR ''/''"
  by (auto simp: normalize_base_def split: option.splits)

lemma routePath_slash:
  "t \<noteq> [] \<Longrightarrow> hd t = CHR ''/'' \<Longrightarrow> routePath t \<noteq> [] \<and> hd (routePath t) = CHR ''/''"
  by (cases t) (auto simp: routePath_def)

lemma compile_routes_mounted:
  assumes "compile_routes ex_libs nb i cfg = Inr rs1"
    and "compile_routes ex_libs None i cfg = Inr rs2"
    and "list_all (\<lambda>e. snd e \<noteq> [] \<and> hd (snd e) = CHR ''/'') cfg"
  shows "list_all2 (\<lambda>a b. name a = name b \<and>
            (\<exists>t. t \<noteq> [] \<and> hd t = CHR ''/'' \<and>
                 rpath a = ex_path ((case nb of None \<Rightarrow> [] | Some s \<Rightarrow> s) @ t) \<and>
                 rpath b = ex_path t)) rs1 rs2"
  using assms
proof (induction cfg arbitrary: i rs1 rs2)
  case Nil
  then show ?case by simp
next
  case (Cons e cfg)
  obtain n t where e: "e = (n, t)" by (cases e)
  from Cons.prems(3) e have t: "t \<noteq> []" "hd t = CHR ''/''"
    and rest: "list_all (\<lambda>e. snd e \<noteq> [] \<and> hd (snd e) = CHR ''/'') cfg" by auto
  note rp = routePath_slash[OF t]
  from Cons.prems(1) e obtain p1 rs1' where
    p1: "newPath ex_libs (with_base nb (routePath t)) = Inr p1" and
    c1: "compile_routes ex_libs nb (Suc i) cfg = Inr rs1'" and
    r1: "rs1 = \<lparr>rid = i, name = n, rpath = p1\<rparr> # rs1'"
    by (auto split: sum.splits)
  from Cons.prems(2) e obtain p2 rs2' where
    p2: "newPath ex_libs (with_base None (routePath t)) = Inr p2" and
    c2: "compile_routes ex_libs None (Suc i) cfg = Inr rs2'" and
    r2: "rs2 = \<lparr>rid = i, name = n, rpath = p2\<rparr> # rs2'"
    by (auto split: sum.splits)
  from p1 rp have e1: "p1 = ex_path ((case nb of None \<Rightarrow> [] | Some s \<Rightarrow> s) @ routePath t)"
    by (simp add: with_base_prefix ex_libs_def ex_newPath_def)
  from p2 rp have e2: "p2 = ex_path (routePath t)"
    by (simp add: with_base_def ex_libs_def ex_newPath_def)
  from Cons.IH[OF c1 c2 rest] r1 r2 e1 e2 rp show ?case by auto
qed

lemma find_related:
  assumes "list_all2 R xs ys" and "\<And>a b. R a b \<Longrightarrow> P a = Q b"
  shows "rel_option R (find P xs) (find Q ys)"
  using assms by (induction rule: list_all2_induct) auto

lemma splitParams_loop_params:
  "params p = params q \<Longrightarrow> splitParams_loop p es acc = splitParams_loop q es acc"
proof (induction es arbitrary: acc)
  case Nil
  then show ?case by simp
next
  case (Cons e es)
  obtain k v where e: "e = (k, v)" by (cases e)
  obtain pp qp where acc: "acc = (pp, qp)" by (cases acc)
  show ?case using Cons e acc by (simp split: option.splits)
qed

lemma url_base_prefix:
  assumes c1: "createRouter ex_libs config b loc1 = Inr r1"
    and c2: "createRouter ex_libs config None loc2 = Inr r2"
    and ra: "routes ra = routes r1" and rb: "routes rb = routes r2"
    and tpl: "list_all (\<lambda>e. snd e \<noteq> [] \<and> hd (snd e) = CHR ''/'') config"
    and lit: "literal_path (case normalize_base b of None \<Rightarrow> [] | Some s \<Rightarrow> s)"
  shows "url ex_libs ra n args =
           map_sum id (\<lambda>u. (case normalize_base b of None \<Rightarrow> [] | Some s \<Rightarrow> s) @ u)
             (url ex_libs rb n args)"
proof -
  let ?pre = "case normalize_base b of None \<Rightarrow> [] | Some s \<Rightarrow> s"
  let ?R = "\<lambda>a b. name a = name b \<and>
            (\<exists>t. t \<noteq> [] \<and> hd t = CHR ''/'' \<and> rpath a = ex_path (?pre @ t) \<and> rpath b = ex_path t)"
  from c1 ra have k1: "compile_routes ex_libs (normalize_base b) 0 (for_in config) = Inr (routes ra)"
    by (auto simp: createRouter_def Let_def split: sum.splits)
  from c2 rb have k2: "compile_routes ex_libs None 0 (for_in config) = Inr (routes rb)"
    by (auto simp: createRouter_def Let_def normalize_base_def split: sum.splits)
  from tpl have tpl': "list_all (\<lambda>e. snd e \<noteq> [] \<and> hd (snd e) = CHR ''/'') (for_in config)"
    by (simp add: list_all_iff set_for_in)
  have rel: "list_all2 ?R (routes ra) (routes rb)"
    using compile_routes_mounted[OF k1 k2 tpl'] .
  have "rel_option ?R (find (\<lambda>rt. name rt = n) (routes ra)) (find (\<lambda>rt. name rt = n) (routes rb))"
    using rel by (rule find_related) simp
  then show ?thesis
  proof (cases rule: option.rel_cases)
    case None
    then show ?thesis by (simp add: url_def getRoute_def)
  next
    case (Some a b)
    then obtain t where t: "t \<noteq> []" "hd t = CHR ''/''"
      "rpath a = ex_path (?pre @ t)" "rpath b = ex_path t" by blast
    note lp = literal_path_build[OF lit normalize_base_slash t(1,2)]
    have sp: "splitParams a args = splitParams b args"
      using splitParams_loop_params[of "rpath a" "rpath b"]
      by (simp add: splitParams_def t(3,4) lp(2))
    obtain pp qp where s: "splitParams b args = (pp, qp)" by (cases "splitParams b args")
    show ?thesis
      using Some(1,2) sp s lp(1)[of pp]
      by (auto simp: url_def getRoute_def t(3,4) Let_def split: sum.splits)
  qed
qed

lemma createRouter_ex_plain:
  "createRouter ex_libs [(''items'', ''/items'')] None (at_path ''/items'' '''')
     = Inr ex_plain_router"
  by (simp add: createRouter_def for_in_ex normalize_base_def ex_libs_def ex_newPath_def
      with_base_def routePath_def ex_plain_router_def)

text \<open>
  C8. In a router that \<open>createRouter\<close> returned, the base is the normalised one:
  \<open>/\<close> becomes the empty string, a non-empty base without a leading slash gets one,
  any other base is kept. Every route's matcher is compiled from the normalised base
  followed by the template's path part, and in every later state of that router
  \<open>pathname\<close> is the location's pathname without its first \<open>length base\<close> characters,
  the pathname itself when no base was given. On the reference matcher, for
  templates that start with a slash and a base of literal segments, \<open>url\<close> returns
  the normalised base followed by what \<open>url\<close> returns without a base. With base
  \<open>/app\<close> and the route \<open>/items\<close>: the location \<open>/app/items\<close> resolves to \<open>items\<close>,
  \<open>pathname\<close> is \<open>/items\<close> and \<open>url('items', {})\<close> is \<open>/app/items\<close>.
\<close>

theorem base_mounting:
  assumes "createRouter L config b loc0 = Inr r"
  shows "base r = normalize_base b \<and>
    length (routes r) = length (for_in config) \<and>
    (\<forall>k < length (for_in config).
       name (routes r ! k) = fst (for_in config ! k) \<and>
       newPath L ((case normalize_base b of None \<Rightarrow> [] | Some s \<Rightarrow> s) @ routePath (snd (for_in config ! k)))
         = Inr (rpath (routes r ! k))) \<and>
    (\<forall>r'. base r' = base r \<longrightarrow>
       pathname_prop r' =
         drop (length (case normalize_base b of None \<Rightarrow> [] | Some s \<Rightarrow> s)) (pathname (hlocation r'))) \<and>
    (\<forall>r'. base r' = base r \<and> b = None \<longrightarrow> pathname_prop r' = pathname (hlocation r')) \<and>
    (createRouter ex_libs [(''items'', ''/items'')] (Some ''/app'') (at_path ''/app/items'' '''')
       = Inr ex_app_router \<and>
     map_option name (current ex_app_router) = Some ''items'' \<and>
     pathname_prop ex_app_router = ''/items'' \<and>
     url ex_libs ex_app_router ''items'' (Some []) = Inr ''/app/items'') \<and>
    (b = None \<longrightarrow> base r = None) \<and>
    (b = Some ''/'' \<longrightarrow> base r = Some '''') \<and>
    (\<forall>s. b = Some s \<and> s \<noteq> [] \<and> hd s \<noteq> CHR ''/'' \<longrightarrow> base r = Some (''/'' @ s)) \<and>
    (\<forall>s. b = Some s \<and> s \<noteq> ''/'' \<and> (s = [] \<or> hd s = CHR ''/'') \<longrightarrow> base r = Some s) \<and>
    (L = ex_libs \<and> createRouter ex_libs config None loc2 = Inr r2 \<and>
     routes ra = routes r \<and> routes rb = routes r2 \<and>
     list_all (\<lambda>e. snd e \<noteq> [] \<and> hd (snd e) = CHR ''/'') config \<and>
     literal_path (case normalize_base b of None \<Rightarrow> [] | Some s \<Rightarrow> s) \<longrightarrow>
       url ex_libs ra n args =
         map_sum id (\<lambda>u. (case normalize_base b of None \<Rightarrow> [] | Some s \<Rightarrow> s) @ u)
           (url ex_libs rb n args))"
proof -
  from assms obtain rs where
    c: "compile_routes L (normalize_base b) 0 (for_in config) = Inr rs" and
    r: "r = \<lparr>base = normalize_base b, routes = rs, hlocation = loc0, listeners = [], calls = [],
             fresh = length rs\<rparr>"
    by (auto simp: createRouter_def Let_def split: sum.splits)
  note nth = compile_routes_nth[OF c]
  note len = compile_routes_length[OF c]
  have 1: "base r = normalize_base b" using r by simp
  have 2: "length (routes r) = length (for_in config)" using r len by simp
  have 3: "\<forall>k < length (for_in config).
       name (routes r ! k) = fst (for_in config ! k) \<and>
       newPath L ((case normalize_base b of None \<Rightarrow> [] | Some s \<Rightarrow> s) @ routePath (snd (for_in config ! k)))
         = Inr (rpath (routes r ! k))"
    using r nth by (simp add: with_base_prefix)
  have 4: "\<forall>r'. base r' = base r \<longrightarrow>
       pathname_prop r' =
         drop (length (case normalize_base b of None \<Rightarrow> [] | Some s \<Rightarrow> s)) (pathname (hlocation r'))"
    using 1 by (simp add: pathname_prop_def split: option.splits)
  have 5: "\<forall>r'. base r' = base r \<and> b = None \<longrightarrow> pathname_prop r' = pathname (hlocation r')"
    using 1 by (simp add: pathname_prop_def normalize_base_def)
  have 6: "map_option name (current ex_app_router) = Some ''items''"
    by (simp add: current_def getActiveRoute_def ex_app_router_def at_path_def ex_test_simps)
  have 7: "pathname_prop ex_app_router = ''/items''"
    by (simp add: pathname_prop_def ex_app_router_def at_path_def)
  have 8: "url ex_libs ex_app_router ''items'' (Some []) = Inr ''/app/items''"
    by (simp add: url_def getRoute_def ex_app_router_def splitParams_def entries_of_def
        ex_path_simps ex_codec_simps)
  have 9: "(b = None \<longrightarrow> base r = None) \<and>
    (b = Some ''/'' \<longrightarrow> base r = Some '''') \<and>
    (\<forall>s. b = Some s \<and> s \<noteq> [] \<and> hd s \<noteq> CHR ''/'' \<longrightarrow> base r = Some (''/'' @ s)) \<and>
    (\<forall>s. b = Some s \<and> s \<noteq> ''/'' \<and> (s = [] \<or> hd s = CHR ''/'') \<longrightarrow> base r = Some s)"
    using 1 by (auto simp: normalize_base_def)
  have 10: "url ex_libs ra n args =
         map_sum id (\<lambda>u. (case normalize_base b of None \<Rightarrow> [] | Some s \<Rightarrow> s) @ u)
           (url ex_libs rb n args)"
    if "L = ex_libs" "createRouter ex_libs config None loc2 = Inr r2"
      "routes ra = routes r" "routes rb = routes r2"
      "list_all (\<lambda>e. snd e \<noteq> [] \<and> hd (snd e) = CHR ''/'') config"
      "literal_path (case normalize_base b of None \<Rightarrow> [] | Some s \<Rightarrow> s)"
    using url_base_prefix[OF _ that(2,3,4,5,6), of loc0 n args] assms that(1) by simp
  show ?thesis
    using 1 2 3 4 5 6 7 8 9 10 createRouter_ex_app by blast
qed

text \<open>
  The base \<open>app\<close> is normalised to \<open>/app\<close> and the base \<open>/\<close> to the empty string; the
  router under \<open>app\<close> at \<open>/app/items/7?x=y\<close> reports the pathname \<open>/items/7\<close>, and its
  \<open>url('items', {})\<close> is \<open>/app\<close> followed by the \<open>/items\<close> of the router without a base.
\<close>

theorem base_mounting_witness:
  "createRouter ex_libs [(''items'', ''/items'')] (Some ''app'') (at_path ''/app/items'' '''')
       = Inr ex_app_router \<and>
   base ex_app_router = Some ''/app'' \<and>
   createRouter ex_libs [(''items'', ''/items'')] (Some ''/'') (at_path ''/items'' '''')
       = Inr ex_root_router \<and>
   base ex_root_router = Some '''' \<and>
   rpath (routes ex_root_router ! 0) = ex_path ''/items'' \<and>
   newPath ex_libs (''/app'' @ routePath ''/items'') = Inr (rpath (routes ex_app_router ! 0)) \<and>
   base (visit ''/app/items/7?x=y'' ex_app_router) = base ex_app_router \<and>
   pathname_prop (visit ''/app/items/7?x=y'' ex_app_router) = ''/items/7'' \<and>
   createRouter ex_libs [(''items'', ''/items'')] None (at_path ''/items'' '''')
       = Inr ex_plain_router \<and>
   literal_path ''/app'' \<and>
   url ex_libs ex_plain_router ''items'' (Some []) = Inr ''/items'' \<and>
   url ex_libs ex_app_router ''items'' (Some []) = Inr ''/app/items''"
proof -
  have n: "normalize_base (Some ''app'') = Some ''/app''" "normalize_base (Some ''/'') = Some ''''"
    by (simp_all add: normalize_base_def)
  have b: "base (visit ''/app/items/7?x=y'' ex_app_router) = base ex_app_router"
    by (simp add: visit_def)
  have l: "literal_path ''/app''"
    by (simp add: literal_path_def segments_of_def segment_of_def)
  have t: "list_all (\<lambda>e. snd e \<noteq> [] \<and> hd (snd e) = CHR ''/'') [(''items'', ''/items'')]"
    by simp
  have u: "url ex_libs ex_plain_router ''items'' (Some []) = Inr ''/items''"
    by (simp add: url_def getRoute_def ex_plain_router_def splitParams_def entries_of_def
        ex_path_def segments_of_def segment_of_def ex_codec_simps)
  have r0: "rpath (routes ex_root_router ! 0) = ex_path ''/items''"
    by (simp add: ex_root_router_def)
  show ?thesis
    using n b l t u r0 createRouter_ex_bare createRouter_ex_root createRouter_ex_plain
      base_mounting [OF createRouter_ex_bare, of "at_path ''/items'' ''''" ex_plain_router
        ex_app_router ex_plain_router "''items''" "Some []"]
      base_mounting [OF createRouter_ex_root]
    by (simp add: visit_def for_in_ex)
qed

section \<open>Object identity\<close>

text \<open>
  \<open>createRouter\<close> establishes \<open>wf_ids\<close>, and every operation keeps it.
\<close>

lemma call_ids_append: "call_ids (a @ b) = call_ids a @ call_ids b"
  by (simp add: call_ids_def map_filter_def)

lemma call_ids_None: "call_ids (map (\<lambda>l. (l, None)) ls) = []"
  by (simp add: call_ids_def map_filter_def)

lemma call_ids_Some:
  "call_ids (map (\<lambda>(i, l). (l, Some (copy_route L r rt i))) (enumerate n ls)) = [n ..< n + length ls]"
proof -
  have "call_ids (map (\<lambda>(i, l). (l, Some (copy_route L r rt i))) (enumerate n ls))
        = map fst (enumerate n ls)"
    by (simp add: call_ids_def map_filter_def comp_def case_prod_unfold copy_route_def)
  then show ?thesis by (simp add: map_fst_enumerate)
qed

lemma createRouter_wf_ids:
  assumes "createRouter L config b loc0 = Inr r"
  shows "wf_ids r"
proof -
  from assms obtain rs where
    c: "compile_routes L (normalize_base b) 0 (for_in config) = Inr rs" and
    r: "r = \<lparr>base = normalize_base b, routes = rs, hlocation = loc0, listeners = [], calls = [],
             fresh = length rs\<rparr>"
    by (auto simp: createRouter_def Let_def split: sum.splits)
  have m: "map rid rs = [0 ..< length rs]"
    using compile_routes_rid[OF c] compile_routes_length[OF c] by simp
  have "distinct (map rid rs)" by (simp add: m)
  moreover have "\<forall>rt \<in> set rs. rid rt < length rs"
  proof
    fix rt assume "rt \<in> set rs"
    then have "rid rt \<in> set (map rid rs)" by simp
    then show "rid rt < length rs" by (simp add: m)
  qed
  ultimately show ?thesis
    by (simp add: wf_ids_def r call_ids_def map_filter_def list_all_iff)
qed

lemma notify_new_calls:
  "\<exists>cs. notify L u r = r\<lparr>calls := calls r @ cs, fresh := fresh r + length (call_ids cs)\<rparr> \<and>
        call_ids cs = [fresh r ..< fresh r + length (call_ids cs)] \<and>
        (\<not> (action u = Replace \<and> is_query_update (location u)) \<and> getActiveRoute r \<noteq> None
           \<longrightarrow> length (call_ids cs) = length (listeners r))"
proof (cases "action u = Replace \<and> is_query_update (location u)")
  case True
  then have "notify L u r = r\<lparr>calls := calls r @ [], fresh := fresh r + length (call_ids [])\<rparr>"
    by (simp add: notify_def call_ids_def map_filter_def)
  moreover have "call_ids [] = [fresh r ..< fresh r + length (call_ids [])]"
    by (simp add: call_ids_def map_filter_def)
  ultimately show ?thesis using True by blast
next
  case False
  then have n: "notify L u r = call_listeners L (getActiveRoute r) (listeners r) r"
    by (auto simp: notify_def)
  show ?thesis
  proof (cases "getActiveRoute r")
    case None
    let ?cs = "map (\<lambda>l. (l, None)) (listeners r)"
    have "notify L u r = r\<lparr>calls := calls r @ ?cs, fresh := fresh r + length (call_ids ?cs)\<rparr>"
      using n None by (simp add: call_listeners_None call_ids_None)
    moreover have "call_ids ?cs = [fresh r ..< fresh r + length (call_ids ?cs)]"
      by (simp add: call_ids_None)
    ultimately show ?thesis using None by blast
  next
    case (Some rt)
    let ?cs = "map (\<lambda>(i, l). (l, Some (copy_route L r rt i))) (enumerate (fresh r) (listeners r))"
    have "notify L u r = r\<lparr>calls := calls r @ ?cs, fresh := fresh r + length (call_ids ?cs)\<rparr>"
      using n Some by (simp add: call_listeners_Some call_ids_Some)
    moreover have "call_ids ?cs = [fresh r ..< fresh r + length (call_ids ?cs)]"
      by (simp add: call_ids_Some)
    moreover have "length (call_ids ?cs) = length (listeners r)"
      by (simp add: call_ids_Some)
    ultimately show ?thesis by blast
  qed
qed

lemma notify_fresh:
  assumes "wf_ids r"
  shows "\<exists>cs. calls (notify L u r) = calls r @ cs \<and>
           distinct (call_ids cs) \<and>
           (\<forall>i \<in> set (call_ids cs).
              i \<notin> set (map rid (routes r)) \<and> i \<notin> set (call_ids (calls r))) \<and>
           (\<not> (action u = Replace \<and> is_query_update (location u)) \<and> getActiveRoute r \<noteq> None
              \<longrightarrow> length (call_ids cs) = length (listeners r)) \<and>
           wf_ids (notify L u r)"
proof -
  from notify_new_calls[of L u r] obtain cs where
    n: "notify L u r = r\<lparr>calls := calls r @ cs, fresh := fresh r + length (call_ids cs)\<rparr>" and
    ids: "call_ids cs = [fresh r ..< fresh r + length (call_ids cs)]" and
    len: "\<not> (action u = Replace \<and> is_query_update (location u)) \<and> getActiveRoute r \<noteq> None
           \<longrightarrow> length (call_ids cs) = length (listeners r)"
    by blast
  from assms have w:
    "\<forall>rt \<in> set (routes r). rid rt < fresh r"
    "\<forall>i \<in> set (call_ids (calls r)). i < fresh r"
    "distinct (map rid (routes r))" "distinct (call_ids (calls r))"
    "\<forall>i \<in> set (call_ids (calls r)). i \<notin> set (map rid (routes r))"
    by (simp_all add: wf_ids_def list_all_iff)
  have ge: "\<forall>i \<in> set (call_ids cs). fresh r \<le> i \<and> i < fresh r + length (call_ids cs)"
  proof
    fix i assume "i \<in> set (call_ids cs)"
    then have "i \<in> set [fresh r ..< fresh r + length (call_ids cs)]" using ids by simp
    then show "fresh r \<le> i \<and> i < fresh r + length (call_ids cs)" by simp
  qed
  have d: "distinct (call_ids cs)"
    using ids by (metis distinct_upt)
  have new: "\<forall>i \<in> set (call_ids cs).
              i \<notin> set (map rid (routes r)) \<and> i \<notin> set (call_ids (calls r))"
    using ge w(1,2) by fastforce
  have wf: "wf_ids (notify L u r)"
    unfolding n wf_ids_def list_all_iff
    using w d new ge by (auto simp: call_ids_append)
  have c: "calls (notify L u r) = calls r @ cs" by (simp add: n)
  from c d new len wf show ?thesis by blast
qed

lemma wf_ids_kept:
  assumes "wf_ids r"
  shows "wf_ids (snd (push L n args r)) \<and> wf_ids (snd (replace L n args r)) \<and>
         wf_ids (setQuery L key v r) \<and> wf_ids (listen l r) \<and> wf_ids (unlisten l r) \<and>
         wf_ids (visit u r)"
proof -
  have h: "wf_ids (r\<lparr>hlocation := loc\<rparr>)" for loc
    using assms by (simp add: wf_ids_def)
  have n: "wf_ids (notify L upd (r\<lparr>hlocation := loc\<rparr>))" for upd loc
    using notify_fresh[OF h, of L upd loc] by blast
  have "wf_ids (snd (push L n args r))"
    using assms n by (simp add: push_def history_push_def Let_def split: sum.splits prod.splits)
  moreover have "wf_ids (snd (replace L n args r))"
    using assms n by (simp add: replace_def history_replace_def Let_def split: sum.splits prod.splits)
  moreover have "wf_ids (setQuery L key v r)"
    using n by (simp add: setQuery_def history_replace_def Let_def)
  moreover have "wf_ids (listen l r)" "wf_ids (unlisten l r)"
    using assms by (simp_all add: wf_ids_def listen_def unlisten_def)
  moreover have "wf_ids (visit u r)"
    using h by (simp add: visit_def)
  ultimately show ?thesis by blast
qed

text \<open>
  No operation writes the base or the routes, navigation leaves the listener set
  alone, and the listener set never holds a listener twice.
\<close>

lemma notify_frame:
  "base (notify L u r) = base r \<and> routes (notify L u r) = routes r \<and>
   listeners (notify L u r) = listeners r \<and> hlocation (notify L u r) = hlocation r"
  using notify_new_calls[of L u r] by auto

lemma operations_frame:
  "base (snd (push L n args r)) = base r \<and> routes (snd (push L n args r)) = routes r \<and>
   listeners (snd (push L n args r)) = listeners r \<and>
   base (snd (replace L n args r)) = base r \<and> routes (snd (replace L n args r)) = routes r \<and>
   listeners (snd (replace L n args r)) = listeners r \<and>
   base (setQuery L key v r) = base r \<and> routes (setQuery L key v r) = routes r \<and>
   listeners (setQuery L key v r) = listeners r \<and>
   base (listen l r) = base r \<and> routes (listen l r) = routes r \<and>
   base (unlisten l r) = base r \<and> routes (unlisten l r) = routes r"
  by (simp add: push_def replace_def history_push_def history_replace_def Let_def notify_frame
      setQuery_eq listen_def unlisten_def split: sum.splits prod.splits)

lemma listeners_distinct:
  "(createRouter L config b loc0 = Inr r0 \<longrightarrow> distinct (listeners r0)) \<and>
   (distinct (listeners r) \<longrightarrow>
      distinct (listeners (listen l r)) \<and> distinct (listeners (unlisten l r)))"
  by (auto simp: createRouter_def Let_def listen_def unlisten_def distinct_removeAll
      split: sum.splits)

lemma ex_wf_ids: "wf_ids ex_listening"
  by (simp add: wf_ids_def ex_listening_eq ex_router_def call_ids_def map_filter_def)

lemma ex_notify:
  "notify ex_libs \<lparr>action = Push, location = at_path ''/items/new'' ''''\<rparr> ex_listening =
     ex_listening\<lparr>
        calls := [(7, Some \<lparr>sid = 3, sname = ''item'', spath = ex_path ''/items/:id'',
                             sparams = [(''id'', ''new'')], squeries = [], spathname = ''/items/new''\<rparr>),
                  (8, Some \<lparr>sid = 4, sname = ''item'', spath = ex_path ''/items/:id'',
                             sparams = [(''id'', ''new'')], squeries = [], spathname = ''/items/new''\<rparr>)],
        fresh := 5\<rparr>"
  by (simp add: ex_listening_eq ex_router_def notify_def is_query_update_def getActiveRoute_def
      ex_test_simps copy_route_def route_params_def route_queries_def route_pathname_def
      at_path_def ex_codec_simps)

text \<open>
  C9, as amended. A notification hands every listener it calls with a route an
  object of its own, newly made: the identities of the objects of one notification
  differ from one another, from those of every object handed out before and from
  those of the route objects, and there is one for each listener when a route is
  current. A read of \<open>current\<close> makes no object: it returns the element of the routes
  array, so two successive reads return the same object.
\<close>

theorem notify_copies_fresh_current_shared:
  assumes "wf_ids r"
  shows "(\<exists>cs. calls (notify L u r) = calls r @ cs \<and>
           distinct (call_ids cs) \<and>
           (\<forall>i \<in> set (call_ids cs).
              i \<notin> set (map rid (routes r)) \<and> i \<notin> set (call_ids (calls r))) \<and>
           (\<not> (action u = Replace \<and> is_query_update (location u)) \<and> getActiveRoute r \<noteq> None
              \<longrightarrow> length (call_ids cs) = length (listeners r))) \<and>
         distinct (call_ids (calls (notify L u r))) \<and>
         read_current r = (getActiveRoute r, r) \<and>
         fst (read_current (snd (read_current r))) = fst (read_current r)"
proof -
  from notify_fresh[OF assms, of L u] obtain cs where
    cs: "calls (notify L u r) = calls r @ cs" "distinct (call_ids cs)"
      "\<forall>i \<in> set (call_ids cs).
              i \<notin> set (map rid (routes r)) \<and> i \<notin> set (call_ids (calls r))"
      "\<not> (action u = Replace \<and> is_query_update (location u)) \<and> getActiveRoute r \<noteq> None
              \<longrightarrow> length (call_ids cs) = length (listeners r)"
    and wf: "wf_ids (notify L u r)"
    by blast
  from wf have d: "distinct (call_ids (calls (notify L u r)))"
    by (simp add: wf_ids_def)
  have rc: "read_current r = (getActiveRoute r, r)"
    "fst (read_current (snd (read_current r))) = fst (read_current r)"
    by (simp_all add: read_current_def current_def)
  from cs d rc show ?thesis by blast
qed

text \<open>
  With listeners \<open>7\<close> and \<open>8\<close> at \<open>/items/new\<close>: the notification makes objects \<open>3\<close> and
  \<open>4\<close>, the route objects are \<open>0\<close>, \<open>1\<close>, \<open>2\<close>, and both reads of \<open>current\<close> return
  object \<open>1\<close>.
\<close>

theorem notify_copies_fresh_current_shared_witness:
  "wf_ids ex_listening \<and>
   getActiveRoute ex_listening \<noteq> None \<and>
   call_ids (calls (notify ex_libs \<lparr>action = Push, location = at_path ''/items/new'' ''''\<rparr>
                      ex_listening)) = [3, 4] \<and>
   map rid (routes ex_listening) = [0, 1, 2] \<and>
   map_option rid (fst (read_current ex_listening)) = Some 1 \<and>
   map_option rid (fst (read_current (snd (read_current ex_listening)))) = Some 1"
proof -
  have a: "getActiveRoute ex_listening \<noteq> None"
    by (simp add: getActiveRoute_def ex_listening_eq ex_router_def at_path_def ex_test_simps)
  have i: "call_ids (calls (notify ex_libs \<lparr>action = Push, location = at_path ''/items/new'' ''''\<rparr>
                      ex_listening)) = [3, 4]"
    by (simp add: ex_notify call_ids_def map_filter_def)
  have r: "map rid (routes ex_listening) = [0, 1, 2]"
    by (simp add: ex_listening_eq ex_router_def)
  have c: "map_option rid (fst (read_current ex_listening)) = Some 1"
    by (simp add: read_current_def current_def getActiveRoute_def ex_listening_eq ex_router_def
        at_path_def ex_test_simps)
  show ?thesis
    using ex_wf_ids a i r c
      notify_copies_fresh_current_shared [OF ex_wf_ids, of ex_libs
        "\<lparr>action = Push, location = at_path ''/items/new'' ''''\<rparr>"]
    by (auto simp: read_current_def)
qed

text \<open>
  The claim as stated fails for \<open>current\<close>: two successive reads in the example
  router, with no navigation between them, both return the route object \<open>1\<close>.
\<close>

theorem current_fresh_counterexample:
  "map_option rid (fst (read_current ex_router)) = Some 1 \<and>
   map_option rid (fst (read_current (snd (read_current ex_router)))) = Some 1"
  by (simp add: read_current_def current_def getActiveRoute_def ex_router_def at_path_def
      ex_test_simps)

end
